theory Spec2Isabelle
  imports Main "HOL-Library.Word" "HOL-Library.AList"
begin

unbundle bit_operations_syntax

section \<open>The token catalog (const pool and literal pool of vt100.go)\<close>

text \<open>
  \<^verbatim>\<open>type TokVal int\<close>: a token value is a Go \<^verbatim>\<open>int\<close>. The const pool starts at
  \<^verbatim>\<open>-(iota + 1)\<close>, so the 81 names take the values \<open>-1\<close> down to \<open>-81\<close> in the order
  of their declaration. A Go \<^verbatim>\<open>byte\<close> is an 8-bit word.
\<close>

type_synonym byte = "8 word"
type_synonym TokVal = int

definition Align :: TokVal where "Align = -1"
definition AltKeypad :: TokVal where "AltKeypad = -2"
definition Blink :: TokVal where "Blink = -3"
definition Bold :: TokVal where "Bold = -4"
definition ClearBOL :: TokVal where "ClearBOL = -5"
definition ClearBOS :: TokVal where "ClearBOS = -6"
definition ClearEOL :: TokVal where "ClearEOL = -7"
definition ClearEOS :: TokVal where "ClearEOS = -8"
definition ClearLine :: TokVal where "ClearLine = -9"
definition ClearScreen :: TokVal where "ClearScreen = -10"
definition CursorDn :: TokVal where "CursorDn = -11"
definition CursorHome :: TokVal where "CursorHome = -12"
definition CursorLf :: TokVal where "CursorLf = -13"
definition CursorPos :: TokVal where "CursorPos = -14"
definition CursorRt :: TokVal where "CursorRt = -15"
definition CursorUp :: TokVal where "CursorUp = -16"
definition DevStat :: TokVal where "DevStat = -17"
definition DhBot :: TokVal where "DhBot = -18"
definition DhTop :: TokVal where "DhTop = -19"
definition Dwsh :: TokVal where "Dwsh = -20"
definition GetCursor :: TokVal where "GetCursor = -21"
definition HvHome :: TokVal where "HvHome = -22"
definition HvPos :: TokVal where "HvPos = -23"
definition Ident :: TokVal where "Ident = -24"
definition Index :: TokVal where "Index = -25"
definition Invisible :: TokVal where "Invisible = -26"
definition Led1 :: TokVal where "Led1 = -27"
definition Led2 :: TokVal where "Led2 = -28"
definition Led3 :: TokVal where "Led3 = -29"
definition Led4 :: TokVal where "Led4 = -30"
definition LedsOff :: TokVal where "LedsOff = -31"
definition LowInt :: TokVal where "LowInt = -32"
definition ModesOff :: TokVal where "ModesOff = -33"
definition NextLine :: TokVal where "NextLine = -34"
definition NumKeypad :: TokVal where "NumKeypad = -35"
definition Reset :: TokVal where "Reset = -36"
definition ResetCol :: TokVal where "ResetCol = -37"
definition ResetInter :: TokVal where "ResetInter = -38"
definition ResetRep :: TokVal where "ResetRep = -39"
definition ResetWrap :: TokVal where "ResetWrap = -40"
definition RestoreCursor :: TokVal where "RestoreCursor = -41"
definition Reverse :: TokVal where "Reverse = -42"
definition RevIndex :: TokVal where "RevIndex = -43"
definition SaveCursor :: TokVal where "SaveCursor = -44"
definition SetAltG0 :: TokVal where "SetAltG0 = -45"
definition SetAltG1 :: TokVal where "SetAltG1 = -46"
definition SetAltSpecG0 :: TokVal where "SetAltSpecG0 = -47"
definition SetAltSpecG1 :: TokVal where "SetAltSpecG1 = -48"
definition SetAppl :: TokVal where "SetAppl = -49"
definition SetCol :: TokVal where "SetCol = -50"
definition SetCursor :: TokVal where "SetCursor = -51"
definition SetInter :: TokVal where "SetInter = -52"
definition SetJump :: TokVal where "SetJump = -53"
definition SetLF :: TokVal where "SetLF = -54"
definition SetNL :: TokVal where "SetNL = -55"
definition SetNormScrn :: TokVal where "SetNormScrn = -56"
definition SetOrgAbs :: TokVal where "SetOrgAbs = -57"
definition SetOrgRel :: TokVal where "SetOrgRel = -58"
definition SetRep :: TokVal where "SetRep = -59"
definition SetRevScrn :: TokVal where "SetRevScrn = -60"
definition SetSmooth :: TokVal where "SetSmooth = -61"
definition SetSpecG0 :: TokVal where "SetSpecG0 = -62"
definition SetSpecG1 :: TokVal where "SetSpecG1 = -63"
definition SetSS2 :: TokVal where "SetSS2 = -64"
definition SetSS3 :: TokVal where "SetSS3 = -65"
definition SetUKG0 :: TokVal where "SetUKG0 = -66"
definition SetUKG1 :: TokVal where "SetUKG1 = -67"
definition SetUSG0 :: TokVal where "SetUSG0 = -68"
definition SetUSG1 :: TokVal where "SetUSG1 = -69"
definition SetVT52 :: TokVal where "SetVT52 = -70"
definition SetWin :: TokVal where "SetWin = -71"
definition SetWrap :: TokVal where "SetWrap = -72"
definition Swsh :: TokVal where "Swsh = -73"
definition TabClr :: TokVal where "TabClr = -74"
definition TabClrAll :: TokVal where "TabClrAll = -75"
definition TabSet :: TokVal where "TabSet = -76"
definition TestLB :: TokVal where "TestLB = -77"
definition TestLBRep :: TokVal where "TestLBRep = -78"
definition TestPU :: TokVal where "TestPU = -79"
definition TestPURep :: TokVal where "TestPURep = -80"
definition Underline :: TokVal where "Underline = -81"

text \<open>The literal pool \<^verbatim>\<open>data\<close>: the names, separated by blanks and newlines.\<close>

definition data :: string where
  "data =
     ''Align AltKeypad Blink Bold ClearBOL\<newline>'' @
     ''ClearBOS ClearEOL ClearEOS ClearLine ClearScreen CursorDn CursorHome\<newline>'' @
     ''CursorLf CursorPos CursorRt CursorUp DevStat DhBot DhTop Dwsh GetCursor\<newline>'' @
     ''HvHome HvPos Ident Index Invisible Led1 Led2 Led3 Led4 LedsOff LowInt\<newline>'' @
     ''ModesOff NextLine NumKeypad Reset ResetCol ResetInter ResetRep ResetWrap\<newline>'' @
     ''RestoreCursor Reverse RevIndex SaveCursor SetAltG0 SetAltG1 SetAltSpecG0\<newline>'' @
     ''SetAltSpecG1 SetAppl SetCol SetCursor SetInter SetJump SetLF SetNL\<newline>'' @
     ''SetNormScrn SetOrgAbs SetOrgRel SetRep SetRevScrn SetSmooth SetSpecG0\<newline>'' @
     ''SetSpecG1 SetSS2 SetSS3 SetUKG0 SetUKG1 SetUSG0 SetUSG1 SetVT52 SetWin\<newline>'' @
     ''SetWrap Swsh TabClr TabClrAll TabSet TestLB TestLBRep TestPU TestPURep\<newline>'' @
     ''Underline''"

text \<open>
  \<^verbatim>\<open>fmt\<close>'s table of space runes, for the runes below 256:
  tab to carriage return, the blank, U+0085 and U+00A0.
\<close>

definition isSpace :: "nat \<Rightarrow> bool" where
  "isSpace r = ((0x09 \<le> r \<and> r \<le> 0x0D) \<or> r = 0x20 \<or> r = 0x85 \<or> r = 0xA0)"

text \<open>
  \<^verbatim>\<open>fmt.Fscan(data, &s)\<close> with one string operand: skip the leading space (newlines count as
  space for \<^verbatim>\<open>Fscan\<close>), fail at the end of the buffer, otherwise read the next word up to
  the following space. \<open>Some (s, rest)\<close> is \<^verbatim>\<open>n == 1 && err == nil\<close> with the buffer that
  is left; \<open>None\<close> is the error at the end of the buffer.
\<close>

definition Fscan :: "string \<Rightarrow> (string \<times> string) option" where
  "Fscan buf =
    (let b = dropWhile (\<lambda>c. isSpace (of_char c)) buf in
     if b = [] then None
     else Some (takeWhile (\<lambda>c. \<not> isSpace (of_char c)) b,
                dropWhile (\<lambda>c. \<not> isSpace (of_char c)) b))"

text \<open>
  The loop of \<^verbatim>\<open>init\<close>: \<^verbatim>\<open>labelMap[t] = s; t--\<close> for every word scanned. The Go map is
  an association list with at most one entry per key.
\<close>

function init_loop :: "string \<Rightarrow> TokVal \<Rightarrow> (TokVal \<times> string) list \<Rightarrow> (TokVal \<times> string) list" where
  "init_loop buf t m =
    (case Fscan buf of
       Some (s, rest) \<Rightarrow> init_loop rest (t - 1) (AList.update t s m)
     | None \<Rightarrow> m)"
  by pat_completeness auto
termination
proof (relation "measure (\<lambda>(buf, t, m). length buf)")
  show "wf (measure (\<lambda>(buf, t, m). length buf))"
    by simp
next
  fix buf :: string and t :: TokVal and m :: "(TokVal \<times> string) list"
    and x2 :: "string \<times> string" and s rest :: string
  assume a: "Fscan buf = Some x2" and x: "(s, rest) = x2"
  define b where "b = dropWhile (\<lambda>c. isSpace (of_char c)) buf"
  from a x have ne: "b \<noteq> []" and r: "rest = dropWhile (\<lambda>c. \<not> isSpace (of_char c)) b"
    by (auto simp: Fscan_def b_def Let_def split: if_splits)
  from ne have "\<not> isSpace (of_char (hd b))"
    unfolding b_def by (metis hd_dropWhile)
  with ne have "length rest < length b"
    unfolding r by (cases b) (auto intro: le_imp_less_Suc length_dropWhile_le)
  moreover have "length b \<le> length buf"
    unfolding b_def by (rule length_dropWhile_le)
  ultimately show "((rest, t - 1, AList.update t s m), buf, t, m) \<in> measure (\<lambda>(buf, t, m). length buf)"
    by simp
qed

declare init_loop.simps [simp del]

definition labelMap :: "(TokVal \<times> string) list" where
  "labelMap = init_loop data (-1) []"

datatype panic = SymbolCountChanged | SliceBoundsOutOfRange

text \<open>\<^verbatim>\<open>init\<close> panics unless the map has 81 entries.\<close>

definition init :: "panic + unit" where
  "init = (if length labelMap \<noteq> 81 then Inl SymbolCountChanged else Inr ())"

text \<open>\<^verbatim>\<open>func (t TokVal) String() string\<close>\<close>

definition String :: "TokVal \<Rightarrow> string" where
  "String t = (case map_of labelMap t of None \<Rightarrow> ''?'' | Some l \<Rightarrow> l)"

section \<open>Tokens and the lexer\<close>

text \<open>
  The slice \<^verbatim>\<open>seq\<close>, which the code tests against \<^verbatim>\<open>nil\<close>, is an option (\<open>None\<close> is
  \<^verbatim>\<open>nil\<close>); the other slices are lists, with \<^verbatim>\<open>nil\<close> as the empty list. A token holds
  \<^verbatim>\<open>l.params\<close> and \<^verbatim>\<open>l.seq\<close> as they are when it is sent: a later \<^verbatim>\<open>append\<close> to \<^verbatim>\<open>l.seq\<close>
  writes past the length of the token's slice and leaves its bytes as they are. The channel \<^verbatim>\<open>Output\<close> is the
  list of the tokens sent so far, oldest first. The channels \<^verbatim>\<open>input\<close> and \<^verbatim>\<open>rundown\<close>
  and the wait group belong to the goroutine plumbing and are not part of the model: the
  bytes received from \<^verbatim>\<open>input\<close> before the rundown are the list given to \<open>run\<close> below.
\<close>

record Token =
  Value :: TokVal
  Params :: "int list"
  seq :: "byte list option"

record Lexer =
  Output :: "Token list"
  paramCharsAccum :: "byte list"
  params :: "int list"
  seq :: "byte list option"

text \<open>The lexer that \<^verbatim>\<open>NewLexer\<close> allocates: every field is zero.\<close>

definition NewLexer :: Lexer where
  "NewLexer = \<lparr>Output = [], paramCharsAccum = [], params = [], seq = None\<rparr>"

text \<open>
  The state of the scanner is the state function that \<^verbatim>\<open>run\<close> holds in its local variable
  \<^verbatim>\<open>state\<close>. No state function returns \<^verbatim>\<open>nil\<close>, so the type has no such value.
\<close>

datatype stateFn =
  St_ground | St_intermediateChar | St_afterLeftSquareBracket | St_escPound
  | St_afterLeftParen | St_afterRightParen | St_escapeDigit

text \<open>A Go string literal as its bytes.\<close>

definition bytes :: "string \<Rightarrow> byte list" where
  "bytes s = map of_char s"

text \<open>\<^verbatim>\<open>l.Output <- &Token{tv, l.params, l.seq}\<close>\<close>

definition send :: "Lexer \<Rightarrow> TokVal \<Rightarrow> Lexer" where
  "send l tv = l\<lparr>Output := Output l @ [\<lparr>Value = tv, Params = params l, Token.seq = Lexer.seq l\<rparr>]\<rparr>"

subsection \<open>The predicates of package unicode on a byte converted to a rune\<close>

text \<open>
  \<^verbatim>\<open>unicode.IsLetter\<close>, \<^verbatim>\<open>IsDigit\<close>, \<^verbatim>\<open>IsPrint\<close> and \<^verbatim>\<open>IsSpace\<close> on \<^verbatim>\<open>rune(c)\<close>, which is
  a Latin-1 code point: the package's Latin-1 property table decides.
\<close>

definition IsLetter :: "byte \<Rightarrow> bool" where
  "IsLetter c = ((0x41 \<le> c \<and> c \<le> 0x5A) \<or> (0x61 \<le> c \<and> c \<le> 0x7A)
     \<or> c = 0xAA \<or> c = 0xB5 \<or> c = 0xBA
     \<or> (0xC0 \<le> c \<and> c \<le> 0xD6) \<or> (0xD8 \<le> c \<and> c \<le> 0xF6) \<or> 0xF8 \<le> c)"

definition IsDigit :: "byte \<Rightarrow> bool" where
  "IsDigit c = (0x30 \<le> c \<and> c \<le> 0x39)"

definition IsPrint :: "byte \<Rightarrow> bool" where
  "IsPrint c = ((0x20 \<le> c \<and> c \<le> 0x7E) \<or> (0xA1 \<le> c \<and> c \<le> 0xAC) \<or> 0xAE \<le> c)"

definition IsSpace :: "byte \<Rightarrow> bool" where
  "IsSpace c = ((0x09 \<le> c \<and> c \<le> 0x0D) \<or> c = 0x20 \<or> c = 0x85 \<or> c = 0xA0)"

subsection \<open>The calls of fmt.Sscanf\<close>

text \<open>
  The body handed to \<^verbatim>\<open>Sscanf\<close> is a string of 7-bit bytes, so every byte is one rune.
  \<^verbatim>\<open>SkipSpace\<close> with \<^verbatim>\<open>nlIsSpace\<close> false, as \<^verbatim>\<open>Sscanf\<close> sets it: a newline is the error
  "unexpected newline" (\<open>None\<close>), also after a carriage return; other space is skipped.
\<close>

fun SkipSpace :: "byte list \<Rightarrow> byte list option" where
  "SkipSpace [] = Some []"
| "SkipSpace (r # rs) =
    (if r = 0x0D \<and> (case rs of [] \<Rightarrow> False | r' # _ \<Rightarrow> r' = 0x0A) then SkipSpace rs
     else if r = 0x0A then None
     else if \<not> isSpace (unat r) then Some (r # rs)
     else SkipSpace rs)"

text \<open>
  \<^verbatim>\<open>scanNumber\<close> for the decimal digits: there must be input and it must start with a
  digit ("expected integer" otherwise); the token is the longest run of digits.
\<close>

definition decimalDigits :: "byte list" where
  "decimalDigits = bytes ''0123456789''"

definition scanNumber :: "byte list \<Rightarrow> (byte list \<times> byte list) option" where
  "scanNumber s =
    (case s of
       [] \<Rightarrow> None
     | r # _ \<Rightarrow>
         if r \<notin> set decimalDigits then None
         else Some (takeWhile (\<lambda>d. d \<in> set decimalDigits) s,
                    dropWhile (\<lambda>d. d \<in> set decimalDigits) s))"

text \<open>
  \<^verbatim>\<open>strconv.ParseUint(tok, 10, 64)\<close> on a token of decimal digits: the value, or the range
  error when it does not fit 64 bits.
\<close>

definition digitsValue :: "byte list \<Rightarrow> nat" where
  "digitsValue tok = foldl (\<lambda>n d. 10 * n + (unat d - 0x30)) 0 tok"

definition ParseUint :: "byte list \<Rightarrow> nat option" where
  "ParseUint tok = (let n = digitsValue tok in if n < 2 ^ 64 then Some n else None)"

text \<open>
  \<^verbatim>\<open>scanUint(verb, 8)\<close> for the verb \<^verbatim>\<open>%d\<close> and an operand of type \<^verbatim>\<open>*byte\<close>: skip space,
  demand input, scan the number, parse it, and fail with "unsigned integer overflow" when
  the value does not fit 8 bits. The result is the value and the input that is left.
\<close>

definition scanUint :: "byte list \<Rightarrow> (byte \<times> byte list) option" where
  "scanUint s =
    (case SkipSpace s of
       None \<Rightarrow> None
     | Some s1 \<Rightarrow>
        (case scanNumber s1 of
           None \<Rightarrow> None
         | Some (tok, rest) \<Rightarrow>
            (case ParseUint tok of
               None \<Rightarrow> None
             | Some i \<Rightarrow> if i mod 2 ^ 8 \<noteq> i then None else Some (word_of_nat i, rest))))"

text \<open>
  \<^verbatim>\<open>fmt.Sscanf(body, "%d", &lines)\<close>: \<open>Some lines\<close> is \<^verbatim>\<open>err == nil && n == 1\<close>. Input left
  after the number is not an error.
\<close>

definition Sscanf_d :: "byte list \<Rightarrow> byte option" where
  "Sscanf_d body =
    (case SkipSpace body of
       None \<Rightarrow> None
     | Some s \<Rightarrow> (case scanUint s of None \<Rightarrow> None | Some (v, _) \<Rightarrow> Some v))"

text \<open>
  \<^verbatim>\<open>fmt.Sscanf(body, "%d;%d", &v, &h)\<close>: \<open>Some (v, h)\<close> is \<^verbatim>\<open>err == nil && n == 2\<close>. After
  the first number the next rune must be the literal \<^verbatim>\<open>;\<close> (the end of the input is
  "unexpected EOF", another rune is "input does not match format"). Input left after the
  second number is not an error.
\<close>

definition Sscanf_d_d :: "byte list \<Rightarrow> (byte \<times> byte) option" where
  "Sscanf_d_d body =
    (case SkipSpace body of
       None \<Rightarrow> None
     | Some s \<Rightarrow>
        (case scanUint s of
           None \<Rightarrow> None
         | Some (v, s1) \<Rightarrow>
            (case s1 of
               [] \<Rightarrow> None
             | r # s2 \<Rightarrow>
                 if r \<noteq> of_char (CHR '';'') then None
                 else (case SkipSpace s2 of
                         None \<Rightarrow> None
                       | Some s3 \<Rightarrow>
                          (case scanUint s3 of
                             None \<Rightarrow> None
                           | Some (h, _) \<Rightarrow> Some (v, h))))))"

subsection \<open>The state functions\<close>

text \<open>\<^verbatim>\<open>ground\<close>: the ground state of the lexer.\<close>

definition ground :: "Lexer \<Rightarrow> byte \<Rightarrow> stateFn \<times> Lexer" where
  "ground l c =
    (let l = l\<lparr>paramCharsAccum := [], params := [], seq := None\<rparr> in
     if c = 0x1b then (St_intermediateChar, l\<lparr>seq := Some [c]\<rparr>)
     else (St_ground, send l (uint c)))"

definition intermediateChar :: "Lexer \<Rightarrow> byte \<Rightarrow> stateFn \<times> Lexer" where
  "intermediateChar l c =
    (if c = of_char (CHR ''['') then (St_afterLeftSquareBracket, l)
     else if c = of_char (CHR ''('') then (St_afterLeftParen, l)
     else if c = of_char (CHR '')'') then (St_afterRightParen, l)
     else if c = of_char (CHR ''#'') then (St_escPound, l)
     else if c = of_char (CHR ''D'') then (St_ground, send l Index)
     else if c = of_char (CHR ''M'') then (St_ground, send l RevIndex)
     else if c = of_char (CHR ''N'') then (St_ground, send l SetSS2)
     else if c = of_char (CHR ''O'') then (St_ground, send l SetSS3)
     else if c = of_char (CHR ''E'') then (St_ground, send l NextLine)
     else if c = of_char (CHR ''7'') then (St_ground, send l SaveCursor)
     else if c = of_char (CHR ''8'') then (St_ground, send l RestoreCursor)
     else if c = of_char (CHR ''='') then (St_ground, send l AltKeypad)
     else if c = of_char (CHR ''>'') then (St_ground, send l NumKeypad)
     else if c = of_char (CHR ''H'') then (St_ground, send l TabSet)
     else if c = of_char (CHR ''c'') then (St_ground, send l Reset)
     else if IsDigit c then (St_escapeDigit, l)
     else (St_ground, l))"

text \<open>The cases of the switch of \<^verbatim>\<open>interpTerm\<close>, one definition for each terminator.\<close>

definition case_h :: "Lexer \<Rightarrow> byte list \<Rightarrow> Lexer" where
  \<comment> \<open>case 'h'\<close>
  "case_h l body =
    (if body = bytes ''20h'' then send l SetNL
     else if body = bytes ''?1h'' then send l SetAppl
     else if body = bytes ''?3h'' then send l SetCol
     else if body = bytes ''?4h'' then send l SetSmooth
     else if body = bytes ''?5h'' then send l SetRevScrn
     else if body = bytes ''?6h'' then send l SetOrgRel
     else if body = bytes ''?7h'' then send l SetWrap
     else if body = bytes ''?8h'' then send l SetRep
     else if body = bytes ''?9h'' then send l SetInter
     else l)"

definition case_l :: "Lexer \<Rightarrow> byte list \<Rightarrow> Lexer" where
  \<comment> \<open>case 'l'\<close>
  "case_l l body =
    (if body = bytes ''20l'' then send l SetLF
     else if body = bytes ''?1l'' then send l SetCursor
     else if body = bytes ''?2l'' then send l SetVT52
     else if body = bytes ''?3l'' then send l ResetCol
     else if body = bytes ''?4l'' then send l SetJump
     else if body = bytes ''?5l'' then send l SetNormScrn
     else if body = bytes ''?6l'' then send l SetOrgAbs
     else if body = bytes ''?7l'' then send l ResetWrap
     else if body = bytes ''?8l'' then send l ResetRep
     else if body = bytes ''?9l'' then send l ResetInter
     else l)"

definition case_m :: "Lexer \<Rightarrow> byte list \<Rightarrow> Lexer" where
  \<comment> \<open>case 'm'\<close>
  "case_m l body =
    (if body = bytes ''m'' then send l ModesOff
     else if body = bytes ''0m'' then send l ModesOff
     else if body = bytes ''1m'' then send l Bold
     else if body = bytes ''2m'' then send l LowInt
     else if body = bytes ''4m'' then send l Underline
     else if body = bytes ''5m'' then send l Blink
     else if body = bytes ''7m'' then send l Reverse
     else if body = bytes ''8m'' then send l Invisible
     else l)"

definition case_r :: "Lexer \<Rightarrow> byte list \<Rightarrow> Lexer" where
  \<comment> \<open>case 'r'\<close>
  "case_r l body =
    (case Sscanf_d_d body of
        Some (v, h) \<Rightarrow> send (l\<lparr>params := [uint v, uint h]\<rparr>) SetWin
      | None \<Rightarrow> l)"

definition case_upper_A :: "Lexer \<Rightarrow> byte list \<Rightarrow> Lexer" where
  \<comment> \<open>case 'A'\<close>
  "case_upper_A l body =
    (case Sscanf_d body of
       Some n \<Rightarrow> send (l\<lparr>params := [uint n]\<rparr>) CursorUp
     | None \<Rightarrow> l)"

definition case_upper_B :: "Lexer \<Rightarrow> byte list \<Rightarrow> Lexer" where
  \<comment> \<open>case 'B'\<close>
  "case_upper_B l body =
    (case Sscanf_d body of
       Some n \<Rightarrow> send (l\<lparr>params := [uint n]\<rparr>) CursorDn
     | None \<Rightarrow> l)"

definition case_upper_C :: "Lexer \<Rightarrow> byte list \<Rightarrow> Lexer" where
  \<comment> \<open>case 'C'\<close>
  "case_upper_C l body =
    (case Sscanf_d body of
       Some n \<Rightarrow> send (l\<lparr>params := [uint n]\<rparr>) CursorRt
     | None \<Rightarrow> l)"

definition case_upper_D :: "Lexer \<Rightarrow> byte list \<Rightarrow> Lexer" where
  \<comment> \<open>case 'D'\<close>
  "case_upper_D l body =
    (case Sscanf_d body of
       Some n \<Rightarrow> send (l\<lparr>params := [uint n]\<rparr>) CursorLf
     | None \<Rightarrow> l)"

definition case_upper_H :: "Lexer \<Rightarrow> byte list \<Rightarrow> Lexer" where
  \<comment> \<open>case 'H'\<close>
  "case_upper_H l body =
    (if body = bytes ''H'' \<or> body = bytes '';H'' then send l CursorHome
     else (case Sscanf_d_d body of
        Some (v, h) \<Rightarrow> send (l\<lparr>params := [uint v, uint h]\<rparr>) CursorPos
      | None \<Rightarrow> l))"

definition case_f :: "Lexer \<Rightarrow> byte list \<Rightarrow> Lexer" where
  \<comment> \<open>case 'f'\<close>
  "case_f l body =
    (if body = bytes ''f'' \<or> body = bytes '';f'' then send l HvHome
     else (case Sscanf_d_d body of
        Some (v, h) \<Rightarrow> send (l\<lparr>params := [uint v, uint h]\<rparr>) HvPos
      | None \<Rightarrow> l))"

definition case_g :: "Lexer \<Rightarrow> byte list \<Rightarrow> Lexer" where
  \<comment> \<open>case 'g'\<close>
  "case_g l body =
    (if body = bytes ''g'' then send l TabClr
     else if body = bytes ''0g'' then send l TabClr
     else if body = bytes ''3g'' then send l TabClrAll
     else l)"

definition case_upper_K :: "Lexer \<Rightarrow> byte list \<Rightarrow> Lexer" where
  \<comment> \<open>case 'K'\<close>
  "case_upper_K l body =
    (if body = bytes ''K'' then send l ClearEOL
     else if body = bytes ''0K'' then send l ClearEOL
     else if body = bytes ''1K'' then send l ClearBOL
     else if body = bytes ''2K'' then send l ClearLine
     else l)"

definition case_upper_J :: "Lexer \<Rightarrow> byte list \<Rightarrow> Lexer" where
  \<comment> \<open>case 'J'\<close>
  "case_upper_J l body =
    (if body = bytes ''J'' then send l ClearEOS
     else if body = bytes ''0J'' then send l ClearEOS
     else if body = bytes ''1J'' then send l ClearBOS
     else if body = bytes ''2J'' then send l ClearScreen
     else l)"

definition case_c :: "Lexer \<Rightarrow> byte list \<Rightarrow> Lexer" where
  \<comment> \<open>case 'c'\<close>
  "case_c l body =
    (if body = bytes ''c'' then send l Ident
     else if body = bytes ''0c'' then send l Ident
     else l)"

definition case_y :: "Lexer \<Rightarrow> byte list \<Rightarrow> Lexer" where
  \<comment> \<open>case 'y'\<close>
  "case_y l body =
    (if body = bytes ''2;1y'' then send l TestPU
     else if body = bytes ''2;2y'' then send l TestLB
     else if body = bytes ''2;9y'' then send l TestPURep
     else if body = bytes ''2;10y'' then send l TestLBRep
     else l)"

definition case_q :: "Lexer \<Rightarrow> byte list \<Rightarrow> Lexer" where
  \<comment> \<open>case 'q'\<close>
  "case_q l body =
    (if body = bytes ''0q'' then send l LedsOff
     else if body = bytes ''1q'' then send l Led1
     else if body = bytes ''2q'' then send l Led2
     else if body = bytes ''3q'' then send l Led3
     else if body = bytes ''4q'' then send l Led4
     else l)"

text \<open>
  \<^verbatim>\<open>interpTerm\<close>: the body is \<^verbatim>\<open>string(l.seq[2:])\<close>; the slice expression panics when
  \<^verbatim>\<open>l.seq\<close> has fewer than two bytes.
\<close>

definition interpTerm :: "Lexer \<Rightarrow> byte \<Rightarrow> panic + stateFn \<times> Lexer" where
  "interpTerm l c =
    (case Lexer.seq l of
       None \<Rightarrow> Inl SliceBoundsOutOfRange
     | Some s \<Rightarrow>
         if length s < 2 then Inl SliceBoundsOutOfRange
         else
           (let body = drop 2 s in
            Inr (St_ground,
              if c = of_char (CHR ''h'') then case_h l body
              else if c = of_char (CHR ''l'') then case_l l body
              else if c = of_char (CHR ''m'') then case_m l body
              else if c = of_char (CHR ''r'') then case_r l body
              else if c = of_char (CHR ''A'') then case_upper_A l body
              else if c = of_char (CHR ''B'') then case_upper_B l body
              else if c = of_char (CHR ''C'') then case_upper_C l body
              else if c = of_char (CHR ''D'') then case_upper_D l body
              else if c = of_char (CHR ''H'') then case_upper_H l body
              else if c = of_char (CHR ''f'') then case_f l body
              else if c = of_char (CHR ''g'') then case_g l body
              else if c = of_char (CHR ''K'') then case_upper_K l body
              else if c = of_char (CHR ''J'') then case_upper_J l body
              else if c = of_char (CHR ''c'') then case_c l body
              else if c = of_char (CHR ''y'') then case_y l body
              else if c = of_char (CHR ''q'') then case_q l body
              else l)))"

definition afterLeftSquareBracket :: "Lexer \<Rightarrow> byte \<Rightarrow> panic + stateFn \<times> Lexer" where
  "afterLeftSquareBracket l c =
    (if IsLetter c then interpTerm l c
     else if IsPrint c \<and> \<not> IsSpace c then Inr (St_afterLeftSquareBracket, l)
     else Inr (St_ground, l))"

definition escPound :: "Lexer \<Rightarrow> byte \<Rightarrow> stateFn \<times> Lexer" where
  "escPound l c =
    (St_ground,
     if c = of_char (CHR ''3'') then send l DhTop
     else if c = of_char (CHR ''4'') then send l DhBot
     else if c = of_char (CHR ''5'') then send l Swsh
     else if c = of_char (CHR ''6'') then send l Dwsh
     else if c = of_char (CHR ''8'') then send l Align
     else l)"

definition afterLeftParen :: "Lexer \<Rightarrow> byte \<Rightarrow> stateFn \<times> Lexer" where
  "afterLeftParen l c =
    (St_ground,
     if c = of_char (CHR ''A'') then send l SetUKG0
     else if c = of_char (CHR ''B'') then send l SetUSG0
     else if c = of_char (CHR ''0'') then send l SetSpecG0
     else if c = of_char (CHR ''1'') then send l SetAltG0
     else if c = of_char (CHR ''2'') then send l SetAltSpecG0
     else l)"

definition afterRightParen :: "Lexer \<Rightarrow> byte \<Rightarrow> stateFn \<times> Lexer" where
  "afterRightParen l c =
    (St_ground,
     if c = of_char (CHR ''A'') then send l SetUKG1
     else if c = of_char (CHR ''B'') then send l SetUSG1
     else if c = of_char (CHR ''0'') then send l SetSpecG1
     else if c = of_char (CHR ''1'') then send l SetAltG1
     else if c = of_char (CHR ''2'') then send l SetAltSpecG1
     else l)"

text \<open>
  \<^verbatim>\<open>escapeDigit\<close>: the body is \<^verbatim>\<open>string(l.seq[1:])\<close>; the slice expression panics when
  \<^verbatim>\<open>l.seq\<close> is empty.
\<close>

definition escapeDigit :: "Lexer \<Rightarrow> byte \<Rightarrow> panic + stateFn \<times> Lexer" where
  "escapeDigit l c =
    (case Lexer.seq l of
       None \<Rightarrow> Inl SliceBoundsOutOfRange
     | Some s \<Rightarrow>
         if length s < 1 then Inl SliceBoundsOutOfRange
         else
           (let body = drop 1 s in
            Inr (St_ground,
              if body = bytes ''5n'' then send l DevStat
              else if body = bytes ''6n'' then send l GetCursor
              else l)))"

subsection \<open>The loop of run\<close>

text \<open>\<^verbatim>\<open>state(c)\<close>: the call of the state function held in \<^verbatim>\<open>state\<close>.\<close>

fun call :: "stateFn \<Rightarrow> Lexer \<Rightarrow> byte \<Rightarrow> panic + stateFn \<times> Lexer" where
  "call St_ground l c = Inr (ground l c)"
| "call St_intermediateChar l c = Inr (intermediateChar l c)"
| "call St_afterLeftSquareBracket l c = afterLeftSquareBracket l c"
| "call St_escPound l c = Inr (escPound l c)"
| "call St_afterLeftParen l c = Inr (afterLeftParen l c)"
| "call St_afterRightParen l c = Inr (afterRightParen l c)"
| "call St_escapeDigit l c = escapeDigit l c"

text \<open>
  One turn of the loop for a byte received from \<^verbatim>\<open>input\<close>: mask it to 7 bits, append it
  to \<^verbatim>\<open>l.seq\<close> when that is not \<^verbatim>\<open>nil\<close>, and call the state function.
\<close>

definition receive :: "stateFn \<Rightarrow> Lexer \<Rightarrow> byte \<Rightarrow> panic + stateFn \<times> Lexer" where
  "receive state l c0 =
    (let c = c0 AND 0x7f;
         l = (case Lexer.seq l of None \<Rightarrow> l | Some s \<Rightarrow> l\<lparr>seq := Some (s @ [c])\<rparr>)
     in call state l c)"

text \<open>
  The loop on the bytes received before the rundown: a panic ends it, the end of the
  bytes leaves the state and the lexer as they are.
\<close>

fun run_from :: "stateFn \<Rightarrow> Lexer \<Rightarrow> byte list \<Rightarrow> panic + stateFn \<times> Lexer" where
  "run_from state l [] = Inr (state, l)"
| "run_from state l (c # cs) =
    (case receive state l c of
       Inl e \<Rightarrow> Inl e
     | Inr (state', l') \<Rightarrow> run_from state' l' cs)"

text \<open>\<^verbatim>\<open>run\<close> starts in the ground state, on the lexer of \<^verbatim>\<open>NewLexer\<close>.\<close>

definition run :: "byte list \<Rightarrow> panic + stateFn \<times> Lexer" where
  "run cs = run_from St_ground NewLexer cs"

section \<open>Notions used to state the properties\<close>

text \<open>
  The bytes that \<^verbatim>\<open>afterLeftSquareBracket\<close> lets accumulate: its second case, reached when
  the first (the letter) does not apply.
\<close>

definition accumulates :: "byte \<Rightarrow> bool" where
  "accumulates c = (\<not> IsLetter c \<and> IsPrint c \<and> \<not> IsSpace c)"

text \<open>
  \<open>emits l cs ts\<close>: the loop, started in the ground state on the lexer \<open>l\<close>, receives the
  bytes \<open>cs\<close> without a panic, is in the ground state after them, and has sent on
  \<^verbatim>\<open>Output\<close> exactly the tokens \<open>ts\<close>, in this order, after those that \<open>l\<close> had sent.
\<close>

definition emits :: "Lexer \<Rightarrow> byte list \<Rightarrow> Token list \<Rightarrow> bool" where
  "emits l cs ts =
    (case run_from St_ground l cs of
       Inl e \<Rightarrow> False
     | Inr (state, l') \<Rightarrow> state = St_ground \<and> Output l' = Output l @ ts)"

text \<open>The decimal numeral of a natural number, as the bytes of its digits.\<close>

fun decimal :: "nat \<Rightarrow> byte list" where
  "decimal n =
    (if n < 10 then [word_of_nat (0x30 + n)]
     else decimal (n div 10) @ [word_of_nat (0x30 + n mod 10)])"

declare decimal.simps [simp del]

text \<open>The const pool in the order of its declaration.\<close>

definition named :: "TokVal list" where
  "named =
     [Align, AltKeypad, Blink, Bold, ClearBOL, ClearBOS, ClearEOL,
      ClearEOS, ClearLine, ClearScreen, CursorDn, CursorHome, CursorLf, CursorPos,
      CursorRt, CursorUp, DevStat, DhBot, DhTop, Dwsh, GetCursor,
      HvHome, HvPos, Ident, Index, Invisible, Led1, Led2,
      Led3, Led4, LedsOff, LowInt, ModesOff, NextLine, NumKeypad,
      Reset, ResetCol, ResetInter, ResetRep, ResetWrap, RestoreCursor, Reverse,
      RevIndex, SaveCursor, SetAltG0, SetAltG1, SetAltSpecG0, SetAltSpecG1, SetAppl,
      SetCol, SetCursor, SetInter, SetJump, SetLF, SetNL, SetNormScrn,
      SetOrgAbs, SetOrgRel, SetRep, SetRevScrn, SetSmooth, SetSpecG0, SetSpecG1,
      SetSS2, SetSS3, SetUKG0, SetUKG1, SetUSG0, SetUSG1, SetVT52,
      SetWin, SetWrap, Swsh, TabClr, TabClrAll, TabSet, TestLB,
      TestLBRep, TestPU, TestPURep, Underline]"

text \<open>\<open>numbered t ws\<close> pairs the words with the values \<open>t\<close>, \<open>t - 1\<close>, and so on.\<close>

fun numbered :: "TokVal \<Rightarrow> string list \<Rightarrow> (TokVal \<times> string) list" where
  "numbered t [] = []"
| "numbered t (w # ws) = (t, w) # numbered (t - 1) ws"

text \<open>
  The states of the loop after each of the bytes received, up to a panic: the values that
  the variable \<^verbatim>\<open>state\<close> of \<^verbatim>\<open>run\<close> takes.
\<close>

fun states_after :: "stateFn \<Rightarrow> Lexer \<Rightarrow> byte list \<Rightarrow> stateFn list" where
  "states_after state l [] = []"
| "states_after state l (c # cs) =
    (case receive state l c of
       Inl e \<Rightarrow> []
     | Inr (state', l') \<Rightarrow> state' # states_after state' l' cs)"

text \<open>
  The string literals of the cases of \<^verbatim>\<open>interpTerm\<close>, the bytes that \<^verbatim>\<open>intermediateChar\<close>,
  \<^verbatim>\<open>afterLeftParen\<close>, \<^verbatim>\<open>afterRightParen\<close> and \<^verbatim>\<open>escPound\<close> have a case for, and the bodies
  that \<^verbatim>\<open>escapeDigit\<close> knows.
\<close>

definition known_bodies :: "byte list list" where
  "known_bodies = map bytes
     [''20h'', ''?1h'', ''?3h'', ''?4h'', ''?5h'', ''?6h'', ''?7h'', ''?8h'', ''?9h'',
      ''20l'', ''?1l'', ''?2l'', ''?3l'', ''?4l'', ''?5l'', ''?6l'', ''?7l'', ''?8l'',
      ''?9l'', ''m'', ''0m'', ''1m'', ''2m'', ''4m'', ''5m'', ''7m'', ''8m'',
      ''H'', '';H'', ''f'', '';f'', ''g'', ''0g'', ''3g'', ''K'', ''0K'',
      ''1K'', ''2K'', ''J'', ''0J'', ''1J'', ''2J'', ''c'', ''0c'', ''2;1y'',
      ''2;2y'', ''2;9y'', ''2;10y'', ''0q'', ''1q'', ''2q'', ''3q'', ''4q'']"

definition escape_followups :: "byte list" where
  "escape_followups = bytes ''[()#DMNOE78=>Hc''"

definition paren_followups :: "byte list" where
  "paren_followups = bytes ''AB012''"

definition pound_followups :: "byte list" where
  "pound_followups = bytes ''34568''"

definition digit_bodies :: "byte list list" where
  "digit_bodies = map bytes [''5n'', ''6n'']"

text \<open>
  \<open>sends_named l l'\<close>: the lexer \<open>l'\<close> is \<open>l\<close> after at most one \<^verbatim>\<open>send\<close> of a named value,
  with \<^verbatim>\<open>l.seq\<close> as it was.
\<close>

definition sends_named :: "Lexer \<Rightarrow> Lexer \<Rightarrow> bool" where
  "sends_named l l' =
    (Lexer.seq l' = Lexer.seq l \<and>
     (Output l' = Output l \<or>
      (\<exists>tv p. - 81 \<le> tv \<and> tv \<le> - 1 \<and>
         Output l' = Output l @ [\<lparr>Value = tv, Params = p, seq = Lexer.seq l\<rparr>])))"

text \<open>Outside the ground state \<^verbatim>\<open>l.seq\<close> holds the bytes of the sequence so far.\<close>

definition in_sequence :: "stateFn \<Rightarrow> Lexer \<Rightarrow> bool" where
  "in_sequence st l = (st = St_ground \<or> (\<exists>s. Lexer.seq l = Some s \<and> s \<noteq> []))"

text \<open>The value of a token is a named value or a raw byte value of 7 bits.\<close>

definition catalog_or_raw :: "Token \<Rightarrow> bool" where
  "catalog_or_raw t = ((- 81 \<le> Value t \<and> Value t \<le> - 1) \<or> (0 \<le> Value t \<and> Value t \<le> 127))"

section \<open>The values of the const pool\<close>

lemmas TokVal_defs =
  Align_def AltKeypad_def Blink_def Bold_def ClearBOL_def ClearBOS_def
  ClearEOL_def ClearEOS_def ClearLine_def ClearScreen_def CursorDn_def CursorHome_def
  CursorLf_def CursorPos_def CursorRt_def CursorUp_def DevStat_def DhBot_def
  DhTop_def Dwsh_def GetCursor_def HvHome_def HvPos_def Ident_def
  Index_def Invisible_def Led1_def Led2_def Led3_def Led4_def
  LedsOff_def LowInt_def ModesOff_def NextLine_def NumKeypad_def Reset_def
  ResetCol_def ResetInter_def ResetRep_def ResetWrap_def RestoreCursor_def Reverse_def
  RevIndex_def SaveCursor_def SetAltG0_def SetAltG1_def SetAltSpecG0_def SetAltSpecG1_def
  SetAppl_def SetCol_def SetCursor_def SetInter_def SetJump_def SetLF_def
  SetNL_def SetNormScrn_def SetOrgAbs_def SetOrgRel_def SetRep_def SetRevScrn_def
  SetSmooth_def SetSpecG0_def SetSpecG1_def SetSS2_def SetSS3_def SetUKG0_def
  SetUKG1_def SetUSG0_def SetUSG1_def SetVT52_def SetWin_def SetWrap_def
  Swsh_def TabClr_def TabClrAll_def TabSet_def TestLB_def TestLBRep_def
  TestPU_def TestPURep_def Underline_def

section \<open>Bytes and the 7-bit mask\<close>

lemma mask_idem: "((c::byte) AND 0x7f) AND 0x7f = c AND 0x7f"
  by (simp add: and.assoc)

lemma mask7_is_mask: "(0x7f::byte) = mask 7"
  by (simp add: mask_eq_exp_minus_1)

lemma uint_mask7: "uint ((c::byte) AND 0x7f) = uint c mod 128"
proof -
  have "uint (c AND mask 7) = uint c mod 2 ^ 7"
    by (simp add: and_mask_mod_2p uint_word_of_int)
  then show ?thesis by (simp add: mask7_is_mask)
qed

lemma byte_bounds: "0 \<le> uint (c::byte) \<and> uint c < 256"
  using uint_bounded [of c] by simp

lemma mask_id: "(c::byte) \<le> 0x7f \<Longrightarrow> c AND 0x7f = c"
  by (simp add: word_uint_eq_iff uint_mask7 word_le_def)

lemma mask_high: "(0x80::byte) \<le> c \<Longrightarrow> uint (c AND 0x7f) = uint c - 128"
  using byte_bounds [of c] by (simp add: uint_mask7 word_le_def) presburger

lemma uint_mask_bound: "0 \<le> uint ((c::byte) AND 0x7f) \<and> uint (c AND 0x7f) \<le> 127"
  by (simp add: uint_mask7)

lemma mask_le: "(c::byte) AND 0x7f \<le> 0x7f"
  by (simp add: word_le_def uint_mask7)

section \<open>The loop, one byte and many\<close>

lemma receive_mask: "receive st l (c AND 0x7f) = receive st l c"
  by (simp add: receive_def mask_idem)

lemma run_from_mask: "run_from st l (map (\<lambda>b. b AND 0x7f) cs) = run_from st l cs"
  by (induction cs arbitrary: st l) (auto simp: receive_mask split: sum.splits)

lemma run_from_append:
  "run_from st l (xs @ ys) =
    (case run_from st l xs of Inl e \<Rightarrow> Inl e | Inr (st', l') \<Rightarrow> run_from st' l' ys)"
  by (induction xs arbitrary: st l) (auto split: sum.splits)

lemma receive_ground:
  "receive St_ground l c =
    Inr (if c AND 0x7f = 0x1b
         then (St_intermediateChar,
               \<lparr>Output = Output l, paramCharsAccum = [], params = [], seq = Some [0x1b]\<rparr>)
         else (St_ground,
               \<lparr>Output = Output l @ [\<lparr>Value = uint (c AND 0x7f), Params = [], seq = None\<rparr>],
                paramCharsAccum = [], params = [], seq = None\<rparr>))"
  by (cases "Lexer.seq l") (simp_all add: receive_def ground_def send_def Let_def)

lemma receive_accumulates:
  "accumulates (c AND 0x7f) \<Longrightarrow> Lexer.seq l = Some s \<Longrightarrow>
   receive St_afterLeftSquareBracket l c =
     Inr (St_afterLeftSquareBracket, l\<lparr>seq := Some (s @ [c AND 0x7f])\<rparr>)"
  by (simp add: receive_def afterLeftSquareBracket_def accumulates_def Let_def)

lemma run_accumulates:
  "\<forall>b\<in>set body. accumulates (b AND 0x7f) \<Longrightarrow> Lexer.seq l = Some s \<Longrightarrow>
   run_from St_afterLeftSquareBracket l (body @ cs) =
     run_from St_afterLeftSquareBracket (l\<lparr>seq := Some (s @ map (\<lambda>b. b AND 0x7f) body)\<rparr>) cs"
proof (induction body arbitrary: l s)
  case Nil
  then show ?case by (cases l) simp
next
  case (Cons b body)
  then show ?case by (simp add: receive_accumulates)
qed

lemma receive_terminator:
  "IsLetter (c AND 0x7f) \<Longrightarrow> Lexer.seq l = Some s \<Longrightarrow>
   receive St_afterLeftSquareBracket l c =
     interpTerm (l\<lparr>seq := Some (s @ [c AND 0x7f])\<rparr>) (c AND 0x7f)"
  by (simp add: receive_def afterLeftSquareBracket_def Let_def)

lemma interpTerm_Inr:
  "Lexer.seq l = Some s \<Longrightarrow> 2 \<le> length s \<Longrightarrow> \<exists>l'. interpTerm l c = Inr (St_ground, l')"
  by (simp add: interpTerm_def Let_def)

text \<open>
  A whole bracket sequence: the escape, the bracket, bytes that accumulate and a letter
  bring the loop to \<^verbatim>\<open>interpTerm\<close> with the masked sequence in \<^verbatim>\<open>l.seq\<close>.
\<close>

lemma run_bracket:
  assumes "\<forall>b\<in>set body. accumulates (b AND 0x7f)" and "IsLetter (c AND 0x7f)"
  shows "run_from St_ground l (0x1b # 0x5b # body @ [c]) =
    interpTerm \<lparr>Output = Output l, paramCharsAccum = [], params = [],
       seq = Some (0x1b # 0x5b # map (\<lambda>b. b AND 0x7f) body @ [c AND 0x7f])\<rparr> (c AND 0x7f)"
proof -
  have "run_from St_ground l (0x1b # 0x5b # body @ [c]) =
      run_from St_afterLeftSquareBracket
        \<lparr>Output = Output l, paramCharsAccum = [], params = [], seq = Some [0x1b, 0x5b]\<rparr> (body @ [c])"
    by (simp add: receive_ground) (simp add: receive_def intermediateChar_def)
  also have "\<dots> = run_from St_afterLeftSquareBracket
        \<lparr>Output = Output l, paramCharsAccum = [], params = [],
           seq = Some (0x1b # 0x5b # map (\<lambda>b. b AND 0x7f) body)\<rparr> [c]"
    using run_accumulates [OF assms(1), of _ "[0x1b, 0x5b]" "[c]"] by simp
  also have "\<dots> = interpTerm \<lparr>Output = Output l, paramCharsAccum = [], params = [],
       seq = Some (0x1b # 0x5b # map (\<lambda>b. b AND 0x7f) body @ [c AND 0x7f])\<rparr> (c AND 0x7f)"
  proof -
    let ?l = "\<lparr>Output = Output l, paramCharsAccum = [], params = [],
       seq = Some (0x1b # 0x5b # map (\<lambda>b. b AND 0x7f) body @ [c AND 0x7f])\<rparr>"
    obtain l' where "interpTerm ?l (c AND 0x7f) = Inr (St_ground, l')"
      using interpTerm_Inr [of ?l _ "c AND 0x7f"] by auto
    then show ?thesis
      using receive_terminator [OF assms(2), of _ "0x1b # 0x5b # map (\<lambda>b. b AND 0x7f) body"]
      by simp
  qed
  finally show ?thesis .
qed

section \<open>The label map\<close>

lemma Fscan_Nil: "Fscan [] = None"
  by (simp add: Fscan_def)

lemma Fscan_space: "isSpace (of_char s) \<Longrightarrow> Fscan (s # buf) = Fscan buf"
  by (simp add: Fscan_def)

lemma Fscan_word:
  assumes "w \<noteq> []" and "\<forall>c\<in>set w. \<not> isSpace (of_char c)"
    and "rest = [] \<or> isSpace (of_char (hd rest))"
  shows "Fscan (w @ rest) = Some (w, rest)"
proof -
  from assms(1,2) have d: "dropWhile (\<lambda>c. isSpace (of_char c)) (w @ rest) = w @ rest"
    by (cases w) auto
  from assms(2) have t: "takeWhile (\<lambda>c. \<not> isSpace (of_char c)) (w @ rest) =
      w @ takeWhile (\<lambda>c. \<not> isSpace (of_char c)) rest"
    by (simp add: takeWhile_append2)
  from assms(2) have r: "dropWhile (\<lambda>c. \<not> isSpace (of_char c)) (w @ rest) =
      dropWhile (\<lambda>c. \<not> isSpace (of_char c)) rest"
    by (simp add: dropWhile_append2)
  from assms(3) have "takeWhile (\<lambda>c. \<not> isSpace (of_char c)) rest = []"
    and "dropWhile (\<lambda>c. \<not> isSpace (of_char c)) rest = rest"
    by (cases rest; auto)+
  with d t r assms(1) show ?thesis by (simp add: Fscan_def)
qed

lemma init_loop_space: "isSpace (of_char s) \<Longrightarrow> init_loop (s # buf) t m = init_loop buf t m"
  by (subst (1 2) init_loop.simps) (simp add: Fscan_space)

lemma update_fresh: "k \<notin> fst ` set al \<Longrightarrow> AList.update k v al = al @ [(k, v)]"
  by (induction al) auto

lemma numbered_keys: "k \<in> fst ` set (numbered t ws) \<Longrightarrow> k \<le> t"
  by (induction ws arbitrary: t) fastforce+

lemma numbered_distinct: "distinct (map fst (numbered t ws))"
proof (induction ws arbitrary: t)
  case Nil
  then show ?case by simp
next
  case (Cons w ws)
  have "t \<notin> fst ` set (numbered (t - 1) ws)"
    using numbered_keys [of t "t - 1" ws] by auto
  with Cons show ?case by simp
qed

lemma numbered_snd: "map snd (numbered t ws) = ws"
  by (induction ws arbitrary: t) auto

text \<open>
  The loop of \<^verbatim>\<open>init\<close> on a buffer of words, each followed by one space rune but the
  last: the words are entered under the values \<open>t\<close>, \<open>t - 1\<close>, and so on, after the
  entries that are in the map, when these have larger keys.
\<close>

lemma init_loop_pool:
  assumes "\<forall>(w, s)\<in>set ps. w \<noteq> [] \<and> (\<forall>c\<in>set w. \<not> isSpace (of_char c)) \<and> isSpace (of_char s)"
    and "lw \<noteq> []" and "\<forall>c\<in>set lw. \<not> isSpace (of_char c)"
    and "\<forall>k\<in>fst ` set m. t < k"
  shows "init_loop (concat (map (\<lambda>(w, s). w @ [s]) ps) @ lw) t m =
    m @ numbered t (map fst ps @ [lw])"
  using assms(1,4)
proof (induction ps arbitrary: t m)
  case Nil
  have "Fscan (lw @ []) = Some (lw, [])"
    using assms(2,3) by (intro Fscan_word) auto
  moreover have "AList.update t lw m = m @ [(t, lw)]"
    using Nil.prems(2) by (intro update_fresh) auto
  ultimately show ?case
    by (simp add: init_loop.simps [of lw] init_loop.simps [of "[]"] Fscan_Nil)
next
  case (Cons p ps)
  obtain w s where p: "p = (w, s)" by (cases p)
  let ?rest = "concat (map (\<lambda>(w, s). w @ [s]) ps) @ lw"
  from Cons.prems(1) p have w: "w \<noteq> []" "\<forall>c\<in>set w. \<not> isSpace (of_char c)"
    and s: "isSpace (of_char s)"
    by auto
  have u: "AList.update t w m = m @ [(t, w)]"
    using Cons.prems(2) by (intro update_fresh) auto
  have "Fscan (w @ (s # ?rest)) = Some (w, s # ?rest)"
    using w s by (intro Fscan_word) auto
  then have "init_loop (w @ s # ?rest) t m = init_loop (s # ?rest) (t - 1) (m @ [(t, w)])"
    by (subst init_loop.simps) (simp add: u)
  also have "\<dots> = init_loop ?rest (t - 1) (m @ [(t, w)])"
    using s by (rule init_loop_space)
  also have "\<dots> = (m @ [(t, w)]) @ numbered (t - 1) (map fst ps @ [lw])"
    using Cons.prems by (intro Cons.IH) fastforce+
  finally show ?case by (simp add: p)
qed

lemma data_pool:
  "data = concat (map (\<lambda>(w, s). w @ [s])
    [(''Align'', CHR '' ''), (''AltKeypad'', CHR '' ''), (''Blink'', CHR '' ''), (''Bold'', CHR '' ''),
     (''ClearBOL'', CHR 0x0A), (''ClearBOS'', CHR '' ''), (''ClearEOL'', CHR '' ''), (''ClearEOS'', CHR '' ''),
     (''ClearLine'', CHR '' ''), (''ClearScreen'', CHR '' ''), (''CursorDn'', CHR '' ''), (''CursorHome'', CHR 0x0A),
     (''CursorLf'', CHR '' ''), (''CursorPos'', CHR '' ''), (''CursorRt'', CHR '' ''), (''CursorUp'', CHR '' ''),
     (''DevStat'', CHR '' ''), (''DhBot'', CHR '' ''), (''DhTop'', CHR '' ''), (''Dwsh'', CHR '' ''),
     (''GetCursor'', CHR 0x0A), (''HvHome'', CHR '' ''), (''HvPos'', CHR '' ''), (''Ident'', CHR '' ''),
     (''Index'', CHR '' ''), (''Invisible'', CHR '' ''), (''Led1'', CHR '' ''), (''Led2'', CHR '' ''),
     (''Led3'', CHR '' ''), (''Led4'', CHR '' ''), (''LedsOff'', CHR '' ''), (''LowInt'', CHR 0x0A),
     (''ModesOff'', CHR '' ''), (''NextLine'', CHR '' ''), (''NumKeypad'', CHR '' ''), (''Reset'', CHR '' ''),
     (''ResetCol'', CHR '' ''), (''ResetInter'', CHR '' ''), (''ResetRep'', CHR '' ''), (''ResetWrap'', CHR 0x0A),
     (''RestoreCursor'', CHR '' ''), (''Reverse'', CHR '' ''), (''RevIndex'', CHR '' ''), (''SaveCursor'', CHR '' ''),
     (''SetAltG0'', CHR '' ''), (''SetAltG1'', CHR '' ''), (''SetAltSpecG0'', CHR 0x0A), (''SetAltSpecG1'', CHR '' ''),
     (''SetAppl'', CHR '' ''), (''SetCol'', CHR '' ''), (''SetCursor'', CHR '' ''), (''SetInter'', CHR '' ''),
     (''SetJump'', CHR '' ''), (''SetLF'', CHR '' ''), (''SetNL'', CHR 0x0A), (''SetNormScrn'', CHR '' ''),
     (''SetOrgAbs'', CHR '' ''), (''SetOrgRel'', CHR '' ''), (''SetRep'', CHR '' ''), (''SetRevScrn'', CHR '' ''),
     (''SetSmooth'', CHR '' ''), (''SetSpecG0'', CHR 0x0A), (''SetSpecG1'', CHR '' ''), (''SetSS2'', CHR '' ''),
     (''SetSS3'', CHR '' ''), (''SetUKG0'', CHR '' ''), (''SetUKG1'', CHR '' ''), (''SetUSG0'', CHR '' ''),
     (''SetUSG1'', CHR '' ''), (''SetVT52'', CHR '' ''), (''SetWin'', CHR 0x0A), (''SetWrap'', CHR '' ''),
     (''Swsh'', CHR '' ''), (''TabClr'', CHR '' ''), (''TabClrAll'', CHR '' ''), (''TabSet'', CHR '' ''),
     (''TestLB'', CHR '' ''), (''TestLBRep'', CHR '' ''), (''TestPU'', CHR '' ''), (''TestPURep'', CHR 0x0A)]) @ ''Underline''"
  by (simp add: data_def)

lemma labelMap_numbered:
  "labelMap = numbered (-1)
     [''Align'', ''AltKeypad'', ''Blink'', ''Bold'', ''ClearBOL'', ''ClearBOS'',
      ''ClearEOL'', ''ClearEOS'', ''ClearLine'', ''ClearScreen'', ''CursorDn'', ''CursorHome'',
      ''CursorLf'', ''CursorPos'', ''CursorRt'', ''CursorUp'', ''DevStat'', ''DhBot'',
      ''DhTop'', ''Dwsh'', ''GetCursor'', ''HvHome'', ''HvPos'', ''Ident'',
      ''Index'', ''Invisible'', ''Led1'', ''Led2'', ''Led3'', ''Led4'',
      ''LedsOff'', ''LowInt'', ''ModesOff'', ''NextLine'', ''NumKeypad'', ''Reset'',
      ''ResetCol'', ''ResetInter'', ''ResetRep'', ''ResetWrap'', ''RestoreCursor'', ''Reverse'',
      ''RevIndex'', ''SaveCursor'', ''SetAltG0'', ''SetAltG1'', ''SetAltSpecG0'', ''SetAltSpecG1'',
      ''SetAppl'', ''SetCol'', ''SetCursor'', ''SetInter'', ''SetJump'', ''SetLF'',
      ''SetNL'', ''SetNormScrn'', ''SetOrgAbs'', ''SetOrgRel'', ''SetRep'', ''SetRevScrn'',
      ''SetSmooth'', ''SetSpecG0'', ''SetSpecG1'', ''SetSS2'', ''SetSS3'', ''SetUKG0'',
      ''SetUKG1'', ''SetUSG0'', ''SetUSG1'', ''SetVT52'', ''SetWin'', ''SetWrap'',
      ''Swsh'', ''TabClr'', ''TabClrAll'', ''TabSet'', ''TestLB'', ''TestLBRep'',
      ''TestPU'', ''TestPURep'', ''Underline'']"
proof -
  have "labelMap = [] @ numbered (-1) (map fst
    [(''Align'', CHR '' ''), (''AltKeypad'', CHR '' ''), (''Blink'', CHR '' ''), (''Bold'', CHR '' ''),
     (''ClearBOL'', CHR 0x0A), (''ClearBOS'', CHR '' ''), (''ClearEOL'', CHR '' ''), (''ClearEOS'', CHR '' ''),
     (''ClearLine'', CHR '' ''), (''ClearScreen'', CHR '' ''), (''CursorDn'', CHR '' ''), (''CursorHome'', CHR 0x0A),
     (''CursorLf'', CHR '' ''), (''CursorPos'', CHR '' ''), (''CursorRt'', CHR '' ''), (''CursorUp'', CHR '' ''),
     (''DevStat'', CHR '' ''), (''DhBot'', CHR '' ''), (''DhTop'', CHR '' ''), (''Dwsh'', CHR '' ''),
     (''GetCursor'', CHR 0x0A), (''HvHome'', CHR '' ''), (''HvPos'', CHR '' ''), (''Ident'', CHR '' ''),
     (''Index'', CHR '' ''), (''Invisible'', CHR '' ''), (''Led1'', CHR '' ''), (''Led2'', CHR '' ''),
     (''Led3'', CHR '' ''), (''Led4'', CHR '' ''), (''LedsOff'', CHR '' ''), (''LowInt'', CHR 0x0A),
     (''ModesOff'', CHR '' ''), (''NextLine'', CHR '' ''), (''NumKeypad'', CHR '' ''), (''Reset'', CHR '' ''),
     (''ResetCol'', CHR '' ''), (''ResetInter'', CHR '' ''), (''ResetRep'', CHR '' ''), (''ResetWrap'', CHR 0x0A),
     (''RestoreCursor'', CHR '' ''), (''Reverse'', CHR '' ''), (''RevIndex'', CHR '' ''), (''SaveCursor'', CHR '' ''),
     (''SetAltG0'', CHR '' ''), (''SetAltG1'', CHR '' ''), (''SetAltSpecG0'', CHR 0x0A), (''SetAltSpecG1'', CHR '' ''),
     (''SetAppl'', CHR '' ''), (''SetCol'', CHR '' ''), (''SetCursor'', CHR '' ''), (''SetInter'', CHR '' ''),
     (''SetJump'', CHR '' ''), (''SetLF'', CHR '' ''), (''SetNL'', CHR 0x0A), (''SetNormScrn'', CHR '' ''),
     (''SetOrgAbs'', CHR '' ''), (''SetOrgRel'', CHR '' ''), (''SetRep'', CHR '' ''), (''SetRevScrn'', CHR '' ''),
     (''SetSmooth'', CHR '' ''), (''SetSpecG0'', CHR 0x0A), (''SetSpecG1'', CHR '' ''), (''SetSS2'', CHR '' ''),
     (''SetSS3'', CHR '' ''), (''SetUKG0'', CHR '' ''), (''SetUKG1'', CHR '' ''), (''SetUSG0'', CHR '' ''),
     (''SetUSG1'', CHR '' ''), (''SetVT52'', CHR '' ''), (''SetWin'', CHR 0x0A), (''SetWrap'', CHR '' ''),
     (''Swsh'', CHR '' ''), (''TabClr'', CHR '' ''), (''TabClrAll'', CHR '' ''), (''TabSet'', CHR '' ''),
     (''TestLB'', CHR '' ''), (''TestLBRep'', CHR '' ''), (''TestPU'', CHR '' ''), (''TestPURep'', CHR 0x0A)] @ [''Underline''])"
    unfolding labelMap_def data_pool
    by (rule init_loop_pool) (simp_all add: isSpace_def)
  then show ?thesis by simp
qed

lemma labelMap_keys: "map fst labelMap = named"
  by (simp add: labelMap_numbered named_def TokVal_defs)

lemma labelMap_length: "length labelMap = 81"
  by (simp add: labelMap_numbered)

lemma map_of_keys:
  "distinct (map fst al) \<Longrightarrow> map (map_of al) (map fst al) = map (\<lambda>p. Some (snd p)) al"
proof (induction al)
  case Nil
  then show ?case by simp
next
  case (Cons p al)
  then have "\<forall>k\<in>set (map fst al). map_of (p # al) k = map_of al k"
    by (cases p) auto
  then have "map (map_of (p # al)) (map fst al) = map (map_of al) (map fst al)"
    by (intro map_cong) auto
  with Cons show ?case by (cases p) simp
qed

lemma String_named: "map String named = map snd labelMap"
proof -
  have "distinct (map fst labelMap)"
    by (simp add: labelMap_numbered numbered_distinct)
  from map_of_keys [OF this]
  have "map (map_of labelMap) named = map (\<lambda>p. Some (snd p)) labelMap"
    by (simp add: labelMap_keys)
  then have eq: "map (map_of labelMap) named = map Some (map snd labelMap)"
    by simp
  have "map String named =
      map (\<lambda>x. case x of None \<Rightarrow> ''?'' | Some l \<Rightarrow> l) (map (map_of labelMap) named)"
    by (simp add: String_def [abs_def] o_def)
  also have "\<dots> = map snd labelMap"
    unfolding eq by (simp add: o_def)
  finally show ?thesis .
qed

lemma String_other: "t \<notin> set named \<Longrightarrow> String t = ''?''"
proof -
  assume "t \<notin> set named"
  then have "t \<notin> fst ` set labelMap"
    using labelMap_keys by (metis set_map)
  then have "map_of labelMap t = None"
    by (simp add: map_of_eq_None_iff)
  then show ?thesis by (simp add: String_def)
qed

lemma numbered_key_set: "fst ` set (numbered t ws) = {t - int (length ws) <.. t}"
proof (induction ws arbitrary: t)
  case Nil
  then show ?case by simp
next
  case (Cons w ws)
  have "insert t {t - 1 - int (length ws) <.. t - 1} = {t - int (length (w # ws)) <.. t}"
    by auto
  with Cons [of "t - 1"] show ?case by simp
qed

lemma named_range: "t \<in> set named \<longleftrightarrow> -81 \<le> t \<and> t \<le> -1"
proof -
  have "set named = fst ` set labelMap"
    using labelMap_keys by (metis set_map)
  also have "\<dots> = {-1 - int (length labelMap) <.. -1}"
  proof -
    obtain ws where ws: "labelMap = numbered (-1) ws"
      using labelMap_numbered by blast
    have "length (numbered (-1) ws) = length ws"
      by (metis length_map numbered_snd)
    then show ?thesis
      unfolding ws by (simp add: numbered_key_set)
  qed
  finally show ?thesis by (auto simp: labelMap_length)
qed

lemma init_ok: "init = Inr ()"
  by (simp add: init_def labelMap_length)

section \<open>Evaluating the loop on given sequences\<close>

lemmas state_defs = receive_def intermediateChar_def afterLeftSquareBracket_def interpTerm_def
  escPound_def afterLeftParen_def afterRightParen_def escapeDigit_def send_def bytes_def
  IsLetter_def IsDigit_def IsPrint_def IsSpace_def Let_def

lemmas term_defs = case_h_def case_l_def case_m_def case_r_def case_upper_A_def
  case_upper_B_def case_upper_C_def case_upper_D_def case_upper_H_def case_f_def case_g_def
  case_upper_K_def case_upper_J_def case_c_def case_y_def case_q_def

lemmas scan_defs = Sscanf_d_def Sscanf_d_d_def scanUint_def scanNumber_def ParseUint_def
  digitsValue_def decimalDigits_def isSpace_def

lemma run_esc:
  "run_from St_ground l (0x1b # cs) =
     run_from St_intermediateChar
       \<lparr>Output = Output l, paramCharsAccum = [], params = [], seq = Some [0x1b]\<rparr> cs"
  by (simp add: receive_ground)

lemma emits_plain:
  "\<forall>b\<in>set cs. b AND 0x7f \<noteq> 0x1b \<Longrightarrow>
   emits l cs (map (\<lambda>b. \<lparr>Value = uint (b AND 0x7f), Params = [], seq = None\<rparr>) cs)"
proof (induction cs arbitrary: l)
  case Nil
  then show ?case by (simp add: emits_def)
next
  case (Cons c cs)
  let ?l = "\<lparr>Output = Output l @ [\<lparr>Value = uint (c AND 0x7f), Params = [], seq = None\<rparr>],
             paramCharsAccum = [], params = [], seq = None\<rparr>"
  from Cons have "emits ?l cs (map (\<lambda>b. \<lparr>Value = uint (b AND 0x7f), Params = [], seq = None\<rparr>) cs)"
    by simp
  with Cons.prems show ?case
    by (auto simp: emits_def receive_ground split: sum.splits)
qed

section \<open>Scanning decimal numbers\<close>

lemma digit_7bit: "d \<in> set decimalDigits \<Longrightarrow> d AND 0x7f = d"
  by (rule mask_id) (auto simp: decimalDigits_def bytes_def)

lemma digit_accumulates: "d \<in> set decimalDigits \<Longrightarrow> accumulates d"
  by (auto simp: decimalDigits_def bytes_def accumulates_def IsLetter_def IsPrint_def IsSpace_def)

lemma digit_not_letter: "IsLetter c \<Longrightarrow> c \<notin> set decimalDigits"
  by (auto simp: decimalDigits_def bytes_def IsLetter_def)

lemma SkipSpace_digit: "d \<in> set decimalDigits \<Longrightarrow> SkipSpace (d # rs) = Some (d # rs)"
  by (auto simp: decimalDigits_def bytes_def isSpace_def)

lemma scanNumber_digits:
  assumes "ds \<noteq> []" and "set ds \<subseteq> set decimalDigits"
    and "rest = [] \<or> hd rest \<notin> set decimalDigits"
  shows "scanNumber (ds @ rest) = Some (ds, rest)"
proof -
  from assms(2) have t: "takeWhile (\<lambda>d. d \<in> set decimalDigits) (ds @ rest) =
      ds @ takeWhile (\<lambda>d. d \<in> set decimalDigits) rest"
    by (intro takeWhile_append2) auto
  from assms(2) have d: "dropWhile (\<lambda>d. d \<in> set decimalDigits) (ds @ rest) =
      dropWhile (\<lambda>d. d \<in> set decimalDigits) rest"
    by (intro dropWhile_append2) auto
  from assms(3) have "takeWhile (\<lambda>d. d \<in> set decimalDigits) rest = []"
    and "dropWhile (\<lambda>d. d \<in> set decimalDigits) rest = rest"
    by (cases rest; auto)+
  with t d assms(1,2) show ?thesis
    by (cases ds) (auto simp: scanNumber_def)
qed

lemma byte_of_nat: "n < 256 \<Longrightarrow> uint (word_of_nat n :: byte) = int n"
  by (simp add: uint_nat unat_of_nat)

text \<open>
  A number in the input, not followed by a digit: \<^verbatim>\<open>scanUint\<close> returns its value when it
  is at most 255 and fails otherwise.
\<close>

lemma scanUint_digits:
  assumes "ds \<noteq> []" and "set ds \<subseteq> set decimalDigits"
    and "rest = [] \<or> hd rest \<notin> set decimalDigits"
  shows "scanUint (ds @ rest) =
    (if digitsValue ds < 256 then Some (word_of_nat (digitsValue ds), rest) else None)"
proof -
  obtain d ds' where ds: "ds = d # ds'" and d: "d \<in> set decimalDigits"
    using assms(1,2) by (cases ds) auto
  have s: "SkipSpace (ds @ rest) = Some (ds @ rest)"
    unfolding ds by (simp only: append_Cons SkipSpace_digit [OF d])
  have n: "scanNumber (ds @ rest) = Some (ds, rest)"
    using assms by (rule scanNumber_digits)
  have "k mod 256 = k \<longleftrightarrow> k < 256" for k :: nat
    by (metis mod_less mod_less_divisor zero_less_numeral)
  then have "digitsValue ds mod 2 ^ 8 = digitsValue ds \<longleftrightarrow> digitsValue ds < 256"
    by simp
  moreover have "digitsValue ds < 256 \<Longrightarrow> digitsValue ds < 2 ^ 64"
    by simp
  ultimately show ?thesis
    by (auto simp: scanUint_def s n ParseUint_def Let_def)
qed

lemma Sscanf_d_digits:
  assumes "ds \<noteq> []" and "set ds \<subseteq> set decimalDigits"
    and "rest = [] \<or> hd rest \<notin> set decimalDigits"
  shows "Sscanf_d (ds @ rest) =
    (if digitsValue ds < 256 then Some (word_of_nat (digitsValue ds)) else None)"
proof -
  obtain d ds' where ds: "ds = d # ds'" and d: "d \<in> set decimalDigits"
    using assms(1,2) by (cases ds) auto
  have s: "SkipSpace (ds @ rest) = Some (ds @ rest)"
    unfolding ds by (simp only: append_Cons SkipSpace_digit [OF d])
  show ?thesis
    by (simp add: Sscanf_d_def s scanUint_digits [OF assms])
qed

lemma Sscanf_d_d_digits:
  assumes "ds1 \<noteq> []" and "set ds1 \<subseteq> set decimalDigits"
    and "ds2 \<noteq> []" and "set ds2 \<subseteq> set decimalDigits"
    and "rest = [] \<or> hd rest \<notin> set decimalDigits"
  shows "Sscanf_d_d (ds1 @ 0x3b # ds2 @ rest) =
    (if digitsValue ds1 < 256 \<and> digitsValue ds2 < 256
     then Some (word_of_nat (digitsValue ds1), word_of_nat (digitsValue ds2)) else None)"
proof -
  obtain d ds' where ds: "ds1 = d # ds'" and d: "d \<in> set decimalDigits"
    using assms(1,2) by (cases ds1) auto
  have s1: "SkipSpace (ds1 @ 0x3b # ds2 @ rest) = Some (ds1 @ 0x3b # ds2 @ rest)"
    unfolding ds by (simp only: append_Cons SkipSpace_digit [OF d])
  obtain e ds'' where es: "ds2 = e # ds''" and e: "e \<in> set decimalDigits"
    using assms(3,4) by (cases ds2) auto
  have s2: "SkipSpace (ds2 @ rest) = Some (ds2 @ rest)"
    unfolding es by (simp only: append_Cons SkipSpace_digit [OF e])
  have "(0x3b::byte) \<notin> set decimalDigits"
    by (simp add: decimalDigits_def bytes_def)
  then have u1: "scanUint (ds1 @ 0x3b # ds2 @ rest) =
      (if digitsValue ds1 < 256 then Some (word_of_nat (digitsValue ds1), 0x3b # ds2 @ rest) else None)"
    using assms(1,2) by (intro scanUint_digits) auto
  have u2: "scanUint (ds2 @ rest) =
      (if digitsValue ds2 < 256 then Some (word_of_nat (digitsValue ds2), rest) else None)"
    using assms(3,4,5) by (rule scanUint_digits)
  show ?thesis
    by (simp add: Sscanf_d_d_def s1 u1 s2 u2)
qed

subsection \<open>Decimal numerals\<close>

lemma digitsValue_snoc: "digitsValue (ds @ [d]) = 10 * digitsValue ds + (unat d - 0x30)"
  by (simp add: digitsValue_def)

lemma digit_byte: "k < 10 \<Longrightarrow> unat (0x30 + word_of_nat k :: byte) = 0x30 + k"
proof -
  assume k: "k < 10"
  have "unat (word_of_nat (0x30 + k) :: byte) = (0x30 + k) mod 2 ^ LENGTH(8)"
    by (rule unat_of_nat)
  with k show ?thesis by simp
qed

lemma decimal_value: "digitsValue (decimal n) = n"
proof (induction n rule: decimal.induct)
  case (1 n)
  show ?case
  proof (cases "n < 10")
    case True
    then show ?thesis
      by (subst decimal.simps) (simp add: digitsValue_def digit_byte)
  next
    case False
    with 1 have "digitsValue (decimal (n div 10)) = n div 10" by simp
    with False show ?thesis
      by (subst decimal.simps) (simp add: digitsValue_snoc digit_byte)
  qed
qed

lemma decimal_nonempty: "decimal n \<noteq> []"
  by (subst decimal.simps) simp

lemma decimal_digits: "set (decimal n) \<subseteq> set decimalDigits"
proof (induction n rule: decimal.induct)
  case (1 n)
  have d: "0x30 + word_of_nat k \<in> set decimalDigits" if "k < 10" for k
  proof -
    from that have "k \<in> {0, 1, 2, 3, 4, 5, 6, 7, 8, 9}" by auto
    then show ?thesis by (auto simp: decimalDigits_def bytes_def)
  qed
  show ?case
  proof (cases "n < 10")
    case True
    then show ?thesis by (subst decimal.simps) (simp add: d)
  next
    case False
    with 1 have "set (decimal (n div 10)) \<subseteq> set decimalDigits" by simp
    with False show ?thesis by (subst decimal.simps) (simp add: d)
  qed
qed

section \<open>Bracket sequences with numeric parameters\<close>

lemma run_bracket_7bit:
  assumes "\<forall>b\<in>set body. b AND 0x7f = b \<and> accumulates b" and "c AND 0x7f = c" and "IsLetter c"
  shows "run_from St_ground l (0x1b # 0x5b # body @ [c]) =
    interpTerm \<lparr>Output = Output l, paramCharsAccum = [], params = [],
       seq = Some (0x1b # 0x5b # body @ [c])\<rparr> c"
proof -
  from assms(1) have m: "map (\<lambda>b. b AND 0x7f) body = body"
    by (induction body) auto
  from assms have "\<forall>b\<in>set body. accumulates (b AND 0x7f)" and "IsLetter (c AND 0x7f)"
    by auto
  from run_bracket [OF this, of l] show ?thesis
    by (simp add: m assms(2))
qed

lemma interpTerm_body:
  "interpTerm \<lparr>Output = out, paramCharsAccum = [], params = [], seq = Some (a # b # body)\<rparr> c =
    Inr (St_ground,
      (let l = \<lparr>Output = out, paramCharsAccum = [], params = [], seq = Some (a # b # body)\<rparr> in
       if c = 0x68 then case_h l body
       else if c = 0x6C then case_l l body
       else if c = 0x6D then case_m l body
       else if c = 0x72 then case_r l body
       else if c = 0x41 then case_upper_A l body
       else if c = 0x42 then case_upper_B l body
       else if c = 0x43 then case_upper_C l body
       else if c = 0x44 then case_upper_D l body
       else if c = 0x48 then case_upper_H l body
       else if c = 0x66 then case_f l body
       else if c = 0x67 then case_g l body
       else if c = 0x4B then case_upper_K l body
       else if c = 0x4A then case_upper_J l body
       else if c = 0x63 then case_c l body
       else if c = 0x79 then case_y l body
       else if c = 0x71 then case_q l body
       else l))"
  by (simp add: interpTerm_def Let_def)

text \<open>The terminators with two parameters and those with one, with their tokens.\<close>

lemma emits_two_params:
  assumes ds1: "ds1 \<noteq> []" "set ds1 \<subseteq> set decimalDigits"
    and ds2: "ds2 \<noteq> []" "set ds2 \<subseteq> set decimalDigits"
    and extra: "\<forall>b\<in>set extra. b AND 0x7f = b \<and> accumulates b"
      "extra = [] \<or> hd extra \<notin> set decimalDigits"
    and c: "(c, tv) \<in> {(0x72, SetWin), (0x48, CursorPos), (0x66, HvPos)}"
  shows "emits l (0x1b # 0x5b # ds1 @ 0x3b # ds2 @ extra @ [c])
    (if digitsValue ds1 < 256 \<and> digitsValue ds2 < 256
     then [\<lparr>Value = tv, Params = [int (digitsValue ds1), int (digitsValue ds2)],
            seq = Some (0x1b # 0x5b # ds1 @ 0x3b # ds2 @ extra @ [c])\<rparr>]
     else [])"
proof -
  let ?body = "ds1 @ 0x3b # ds2 @ extra"
  from c have letter: "IsLetter c" and c7: "c AND 0x7f = c"
    by (auto simp: IsLetter_def)
  have semi: "(0x3b::byte) AND 0x7f = 0x3b \<and> accumulates 0x3b"
    by (simp add: accumulates_def IsLetter_def IsPrint_def IsSpace_def)
  have acc: "\<forall>b\<in>set ?body. b AND 0x7f = b \<and> accumulates b"
    using ds1(2) ds2(2) extra(1) semi by (auto simp: digit_7bit digit_accumulates)
  have run: "run_from St_ground l (0x1b # 0x5b # ?body @ [c]) =
      interpTerm \<lparr>Output = Output l, paramCharsAccum = [], params = [],
         seq = Some (0x1b # 0x5b # ?body @ [c])\<rparr> c"
    using acc c7 letter by (rule run_bracket_7bit)
  have rest: "extra @ [c] = [] \<or> hd (extra @ [c]) \<notin> set decimalDigits"
    using extra(2) digit_not_letter [OF letter] by (cases extra) auto
  have scan: "Sscanf_d_d (?body @ [c]) =
      (if digitsValue ds1 < 256 \<and> digitsValue ds2 < 256
       then Some (word_of_nat (digitsValue ds1), word_of_nat (digitsValue ds2)) else None)"
    using Sscanf_d_d_digits [OF ds1 ds2 rest] by simp
  obtain d ds' where d: "ds1 = d # ds'" "d \<in> set decimalDigits"
    using ds1 by (cases ds1) auto
  have "d \<noteq> 0x48" "d \<noteq> 0x66" "d \<noteq> 0x3b"
    using d(2) by (auto simp: decimalDigits_def bytes_def)
  then have nohome: "?body @ [x] \<noteq> bytes ''H''" "?body @ [x] \<noteq> bytes '';H''"
      "?body @ [x] \<noteq> bytes ''f''" "?body @ [x] \<noteq> bytes '';f''" for x
    by (simp_all add: d(1) bytes_def)
  have eq: "?body @ [x] = ds1 @ 0x3b # ds2 @ extra @ [x]" for x
    by simp
  let ?l0 = "\<lparr>Output = Output l, paramCharsAccum = [], params = [],
         seq = Some (0x1b # 0x5b # ds1 @ 0x3b # ds2 @ extra @ [c])\<rparr>"
  have interp: "interpTerm ?l0 c =
      Inr (St_ground,
        case Sscanf_d_d (ds1 @ 0x3b # ds2 @ extra @ [c]) of
          None \<Rightarrow> ?l0
        | Some (v, h) \<Rightarrow> send (?l0\<lparr>params := [uint v, uint h]\<rparr>) tv)"
  proof -
    from c consider "c = 0x72" "tv = SetWin" | "c = 0x48" "tv = CursorPos" | "c = 0x66" "tv = HvPos"
      by auto
    then show ?thesis
    proof cases
      case 1
      show ?thesis
        unfolding 1 by (simp add: interpTerm_body case_r_def Let_def)
    next
      case 2
      show ?thesis
        unfolding 2 using nohome(1,2) [of "0x48"]
        by (simp add: interpTerm_body case_upper_H_def Let_def)
    next
      case 3
      show ?thesis
        unfolding 3 using nohome(3,4) [of "0x66"]
        by (simp add: interpTerm_body case_f_def Let_def)
    qed
  qed
  show ?thesis
    unfolding emits_def run [unfolded eq] interp scan [unfolded eq]
    by (simp add: send_def byte_of_nat)
qed

lemma emits_one_param:
  assumes ds: "ds \<noteq> []" "set ds \<subseteq> set decimalDigits"
    and extra: "\<forall>b\<in>set extra. b AND 0x7f = b \<and> accumulates b"
      "extra = [] \<or> hd extra \<notin> set decimalDigits"
    and c: "(c, tv) \<in> {(0x41, CursorUp), (0x42, CursorDn), (0x43, CursorRt), (0x44, CursorLf)}"
  shows "emits l (0x1b # 0x5b # ds @ extra @ [c])
    (if digitsValue ds < 256
     then [\<lparr>Value = tv, Params = [int (digitsValue ds)],
            seq = Some (0x1b # 0x5b # ds @ extra @ [c])\<rparr>]
     else [])"
proof -
  let ?body = "ds @ extra"
  from c have letter: "IsLetter c" and c7: "c AND 0x7f = c"
    by (auto simp: IsLetter_def)
  have acc: "\<forall>b\<in>set ?body. b AND 0x7f = b \<and> accumulates b"
    using ds(2) extra(1) by (auto simp: digit_7bit digit_accumulates)
  have run: "run_from St_ground l (0x1b # 0x5b # ?body @ [c]) =
      interpTerm \<lparr>Output = Output l, paramCharsAccum = [], params = [],
         seq = Some (0x1b # 0x5b # ?body @ [c])\<rparr> c"
    using acc c7 letter by (rule run_bracket_7bit)
  have rest: "extra @ [c] = [] \<or> hd (extra @ [c]) \<notin> set decimalDigits"
    using extra(2) digit_not_letter [OF letter] by (cases extra) auto
  have scan: "Sscanf_d (?body @ [c]) =
      (if digitsValue ds < 256 then Some (word_of_nat (digitsValue ds)) else None)"
    using Sscanf_d_digits [OF ds rest] by simp
  have eq: "?body @ [x] = ds @ extra @ [x]" for x
    by simp
  let ?l0 = "\<lparr>Output = Output l, paramCharsAccum = [], params = [],
         seq = Some (0x1b # 0x5b # ds @ extra @ [c])\<rparr>"
  have interp: "interpTerm ?l0 c =
      Inr (St_ground,
        case Sscanf_d (ds @ extra @ [c]) of
          None \<Rightarrow> ?l0
        | Some n \<Rightarrow> send (?l0\<lparr>params := [uint n]\<rparr>) tv)"
  proof -
    from c consider "c = 0x41" "tv = CursorUp" | "c = 0x42" "tv = CursorDn"
      | "c = 0x43" "tv = CursorRt" | "c = 0x44" "tv = CursorLf"
      by auto
    then show ?thesis
    proof cases
      case 1
      show ?thesis
        unfolding 1 by (simp add: interpTerm_body case_upper_A_def Let_def)
    next
      case 2
      show ?thesis
        unfolding 2 by (simp add: interpTerm_body case_upper_B_def Let_def)
    next
      case 3
      show ?thesis
        unfolding 3 by (simp add: interpTerm_body case_upper_C_def Let_def)
    next
      case 4
      show ?thesis
        unfolding 4 by (simp add: interpTerm_body case_upper_D_def Let_def)
    qed
  qed
  show ?thesis
    unfolding emits_def run [unfolded eq] interp scan [unfolded eq]
    by (simp add: send_def byte_of_nat)
qed

text \<open>A body that \<^verbatim>\<open>Sscanf\<close> rejects sends no token.\<close>

lemma emits_scan_fails_two:
  assumes body: "\<forall>b\<in>set body. b AND 0x7f = b \<and> accumulates b"
    and c: "c \<in> {0x72, 0x48, 0x66}"
    and fails: "Sscanf_d_d (body @ [c]) = None"
    and nohome: "body @ [c] \<notin> {bytes ''H'', bytes '';H'', bytes ''f'', bytes '';f''}"
  shows "emits l (0x1b # 0x5b # body @ [c]) []"
proof -
  from c have letter: "IsLetter c" and c7: "c AND 0x7f = c"
    by (auto simp: IsLetter_def)
  have run: "run_from St_ground l (0x1b # 0x5b # body @ [c]) =
      interpTerm \<lparr>Output = Output l, paramCharsAccum = [], params = [],
         seq = Some (0x1b # 0x5b # body @ [c])\<rparr> c"
    using body c7 letter by (rule run_bracket_7bit)
  from c consider "c = 0x72" | "c = 0x48" | "c = 0x66"
    by auto
  then show ?thesis
  proof cases
    case 1
    show ?thesis
      unfolding emits_def run using fails
      unfolding 1 by (simp add: interpTerm_body case_r_def Let_def)
  next
    case 2
    show ?thesis
      unfolding emits_def run using fails nohome
      unfolding 2 by (simp add: interpTerm_body case_upper_H_def Let_def)
  next
    case 3
    show ?thesis
      unfolding emits_def run using fails nohome
      unfolding 3 by (simp add: interpTerm_body case_f_def Let_def)
  qed
qed

lemma emits_scan_fails_one:
  assumes body: "\<forall>b\<in>set body. b AND 0x7f = b \<and> accumulates b"
    and c: "c \<in> {0x41, 0x42, 0x43, 0x44}"
    and fails: "Sscanf_d (body @ [c]) = None"
  shows "emits l (0x1b # 0x5b # body @ [c]) []"
proof -
  from c have letter: "IsLetter c" and c7: "c AND 0x7f = c"
    by (auto simp: IsLetter_def)
  have run: "run_from St_ground l (0x1b # 0x5b # body @ [c]) =
      interpTerm \<lparr>Output = Output l, paramCharsAccum = [], params = [],
         seq = Some (0x1b # 0x5b # body @ [c])\<rparr> c"
    using body c7 letter by (rule run_bracket_7bit)
  from c consider "c = 0x41" | "c = 0x42" | "c = 0x43" | "c = 0x44"
    by auto
  then show ?thesis
  proof cases
    case 1
    show ?thesis
      unfolding emits_def run using fails
      unfolding 1 by (simp add: interpTerm_body case_upper_A_def Let_def)
  next
    case 2
    show ?thesis
      unfolding emits_def run using fails
      unfolding 2 by (simp add: interpTerm_body case_upper_B_def Let_def)
  next
    case 3
    show ?thesis
      unfolding emits_def run using fails
      unfolding 3 by (simp add: interpTerm_body case_upper_C_def Let_def)
  next
    case 4
    show ?thesis
      unfolding emits_def run using fails
      unfolding 4 by (simp add: interpTerm_body case_upper_D_def Let_def)
  qed
qed

text \<open>The sequences of the claims, with the numbers as decimal numerals.\<close>

lemma emits_decimal_two:
  assumes "\<forall>b\<in>set extra. b \<le> 0x7f \<and> accumulates b"
    and "extra = [] \<or> hd extra \<notin> set decimalDigits"
    and "(c, tv) \<in> {(0x72, SetWin), (0x48, CursorPos), (0x66, HvPos)}"
  shows "emits l (0x1b # bytes ''['' @ decimal v @ bytes '';'' @ decimal h @ extra @ [c])
    (if v \<le> 255 \<and> h \<le> 255
     then [\<lparr>Value = tv, Params = [int v, int h],
            seq = Some (0x1b # bytes ''['' @ decimal v @ bytes '';'' @ decimal h @ extra @ [c])\<rparr>]
     else [])"
proof -
  have le: "(k \<le> 255) = (k < 256)" for k :: nat
    by arith
  from assms(1) have "\<forall>b\<in>set extra. b AND 0x7f = b \<and> accumulates b"
    by (simp add: mask_id)
  from emits_two_params [of "decimal v" "decimal h" extra c tv l,
      OF decimal_nonempty decimal_digits decimal_nonempty decimal_digits this assms(2,3),
      unfolded decimal_value]
  show ?thesis
    by (auto simp: bytes_def le split: if_splits)
qed

lemma emits_decimal_one:
  assumes "\<forall>b\<in>set extra. b \<le> 0x7f \<and> accumulates b"
    and "extra = [] \<or> hd extra \<notin> set decimalDigits"
    and "(c, tv) \<in> {(0x41, CursorUp), (0x42, CursorDn), (0x43, CursorRt), (0x44, CursorLf)}"
  shows "emits l (0x1b # bytes ''['' @ decimal n @ extra @ [c])
    (if n \<le> 255
     then [\<lparr>Value = tv, Params = [int n],
            seq = Some (0x1b # bytes ''['' @ decimal n @ extra @ [c])\<rparr>]
     else [])"
proof -
  have le: "(k \<le> 255) = (k < 256)" for k :: nat
    by arith
  from assms(1) have "\<forall>b\<in>set extra. b AND 0x7f = b \<and> accumulates b"
    by (simp add: mask_id)
  from emits_one_param [of "decimal n" extra c tv l,
      OF decimal_nonempty decimal_digits this assms(2,3), unfolded decimal_value]
  show ?thesis
    by (auto simp: bytes_def le split: if_splits)
qed

section \<open>What a state function can send\<close>

lemma sends_named_refl: "sends_named l l"
  by (simp add: sends_named_def)

lemma sends_named_send: "- 81 \<le> tv \<Longrightarrow> tv \<le> - 1 \<Longrightarrow> sends_named l (send l tv)"
  by (auto simp: sends_named_def send_def)

lemma sends_named_params:
  "- 81 \<le> tv \<Longrightarrow> tv \<le> - 1 \<Longrightarrow> sends_named l (send (l\<lparr>params := p\<rparr>) tv)"
  by (auto simp: sends_named_def send_def)

lemmas sends_named_intros = sends_named_refl sends_named_send sends_named_params

lemma case_h_sends: "sends_named l (case_h l body)"
  by (simp add: case_h_def sends_named_intros TokVal_defs)

lemma case_l_sends: "sends_named l (case_l l body)"
  by (simp add: case_l_def sends_named_intros TokVal_defs)

lemma case_m_sends: "sends_named l (case_m l body)"
  by (simp add: case_m_def sends_named_intros TokVal_defs)

lemma case_r_sends: "sends_named l (case_r l body)"
  by (simp add: case_r_def sends_named_intros TokVal_defs split: option.splits)

lemma case_upper_A_sends: "sends_named l (case_upper_A l body)"
  by (simp add: case_upper_A_def sends_named_intros TokVal_defs split: option.splits)

lemma case_upper_B_sends: "sends_named l (case_upper_B l body)"
  by (simp add: case_upper_B_def sends_named_intros TokVal_defs split: option.splits)

lemma case_upper_C_sends: "sends_named l (case_upper_C l body)"
  by (simp add: case_upper_C_def sends_named_intros TokVal_defs split: option.splits)

lemma case_upper_D_sends: "sends_named l (case_upper_D l body)"
  by (simp add: case_upper_D_def sends_named_intros TokVal_defs split: option.splits)

lemma case_upper_H_sends: "sends_named l (case_upper_H l body)"
  by (simp add: case_upper_H_def sends_named_intros TokVal_defs split: option.splits)

lemma case_f_sends: "sends_named l (case_f l body)"
  by (simp add: case_f_def sends_named_intros TokVal_defs split: option.splits)

lemma case_g_sends: "sends_named l (case_g l body)"
  by (simp add: case_g_def sends_named_intros TokVal_defs)

lemma case_upper_K_sends: "sends_named l (case_upper_K l body)"
  by (simp add: case_upper_K_def sends_named_intros TokVal_defs)

lemma case_upper_J_sends: "sends_named l (case_upper_J l body)"
  by (simp add: case_upper_J_def sends_named_intros TokVal_defs)

lemma case_c_sends: "sends_named l (case_c l body)"
  by (simp add: case_c_def sends_named_intros TokVal_defs)

lemma case_y_sends: "sends_named l (case_y l body)"
  by (simp add: case_y_def sends_named_intros TokVal_defs)

lemma case_q_sends: "sends_named l (case_q l body)"
  by (simp add: case_q_def sends_named_intros TokVal_defs)

lemmas case_sends =
  case_h_sends case_l_sends case_m_sends case_r_sends case_upper_A_sends
  case_upper_B_sends case_upper_C_sends case_upper_D_sends case_upper_H_sends case_f_sends
  case_g_sends case_upper_K_sends case_upper_J_sends case_c_sends case_y_sends
  case_q_sends

lemma interpTerm_sends:
  assumes "Lexer.seq l = Some s" and "2 \<le> length s"
  shows "\<exists>l'. interpTerm l c = Inr (St_ground, l') \<and> sends_named l l'"
  using assms by (simp add: interpTerm_def Let_def case_sends sends_named_refl)

lemma intermediateChar_sends:
  "\<exists>st' l'. intermediateChar l c = (st', l') \<and> sends_named l l' \<and> (st' \<noteq> St_ground \<longrightarrow> l' = l)"
  by (simp add: intermediateChar_def sends_named_intros TokVal_defs)

lemma escPound_sends: "\<exists>l'. escPound l c = (St_ground, l') \<and> sends_named l l'"
  by (simp add: escPound_def sends_named_intros TokVal_defs)

lemma afterLeftParen_sends: "\<exists>l'. afterLeftParen l c = (St_ground, l') \<and> sends_named l l'"
  by (simp add: afterLeftParen_def sends_named_intros TokVal_defs)

lemma afterRightParen_sends: "\<exists>l'. afterRightParen l c = (St_ground, l') \<and> sends_named l l'"
  by (simp add: afterRightParen_def sends_named_intros TokVal_defs)

lemma escapeDigit_sends:
  assumes "Lexer.seq l = Some s" and "1 \<le> length s"
  shows "\<exists>l'. escapeDigit l c = Inr (St_ground, l') \<and> sends_named l l'"
  using assms by (cases s) (simp_all add: escapeDigit_def Let_def sends_named_intros TokVal_defs)

lemma afterLeftSquareBracket_sends:
  assumes "Lexer.seq l = Some s" and "2 \<le> length s"
  shows "\<exists>st' l'. afterLeftSquareBracket l c = Inr (st', l') \<and> sends_named l l'
    \<and> (st' \<noteq> St_ground \<longrightarrow> l' = l)"
  using interpTerm_sends [OF assms, of c]
  by (auto simp: afterLeftSquareBracket_def sends_named_refl)

text \<open>
  A state function other than \<^verbatim>\<open>ground\<close>, called on a lexer whose \<^verbatim>\<open>seq\<close> holds two bytes
  or more, does not panic, sends at most one token, of a named value, and leaves the lexer
  as it is when it does not return to the ground state.
\<close>

lemma call_sends:
  assumes "st \<noteq> St_ground" and "Lexer.seq l = Some s" and "2 \<le> length s"
  shows "\<exists>st' l'. call st l c = Inr (st', l') \<and> sends_named l l' \<and> (st' \<noteq> St_ground \<longrightarrow> l' = l)"
proof (cases st)
  case St_ground
  with assms(1) show ?thesis by simp
next
  case St_intermediateChar
  then show ?thesis using intermediateChar_sends [of l c] by auto
next
  case St_afterLeftSquareBracket
  then show ?thesis using afterLeftSquareBracket_sends [OF assms(2,3), of c] by auto
next
  case St_escPound
  then show ?thesis using escPound_sends [of l c] by auto
next
  case St_afterLeftParen
  then show ?thesis using afterLeftParen_sends [of l c] by auto
next
  case St_afterRightParen
  then show ?thesis using afterRightParen_sends [of l c] by auto
next
  case St_escapeDigit
  from assms(3) have "1 \<le> length s" by simp
  from escapeDigit_sends [OF assms(2) this, of c] St_escapeDigit show ?thesis by auto
qed

text \<open>The same for a turn of the loop, which appends the masked byte first.\<close>

lemma receive_sends:
  assumes "st \<noteq> St_ground" and "Lexer.seq l = Some s" and "s \<noteq> []"
  shows "\<exists>st' l'. receive st l c = Inr (st', l')
    \<and> Lexer.seq l' = Some (s @ [c AND 0x7f])
    \<and> (st' \<noteq> St_ground \<longrightarrow> Output l' = Output l)
    \<and> (Output l' = Output l \<or>
        (\<exists>tv p. - 81 \<le> tv \<and> tv \<le> - 1 \<and>
           Output l' = Output l @ [\<lparr>Value = tv, Params = p, seq = Some (s @ [c AND 0x7f])\<rparr>]))"
proof -
  let ?l = "l\<lparr>seq := Some (s @ [c AND 0x7f])\<rparr>"
  have r: "receive st l c = call st ?l (c AND 0x7f)"
    using assms(2) by (simp add: receive_def Let_def)
  from assms(3) have "2 \<le> length (s @ [c AND 0x7f])"
    by (cases s) auto
  from call_sends [OF assms(1) _ this, of ?l "c AND 0x7f"]
  obtain st' l' where c: "call st ?l (c AND 0x7f) = Inr (st', l')"
    and s: "sends_named ?l l'" and k: "st' \<noteq> St_ground \<longrightarrow> l' = ?l"
    by auto
  from s k show ?thesis
    unfolding r c by (auto simp: sends_named_def)
qed

section \<open>The loop never panics, and what it sends\<close>

lemma receive_total:
  assumes "in_sequence st l"
  shows "\<exists>st' l' ts. receive st l c = Inr (st', l') \<and> in_sequence st' l'
    \<and> Output l' = Output l @ ts \<and> length ts \<le> 1 \<and> (\<forall>t\<in>set ts. catalog_or_raw t)"
proof (cases "st = St_ground")
  case True
  show ?thesis
  proof (cases "c AND 0x7f = 0x1b")
    case esc: True
    then have "receive St_ground l c =
        Inr (St_intermediateChar,
             \<lparr>Output = Output l, paramCharsAccum = [], params = [], seq = Some [0x1b]\<rparr>)"
      by (simp add: receive_ground)
    then show ?thesis
      unfolding True by (simp add: in_sequence_def)
  next
    case plain: False
    let ?t = "\<lparr>Value = uint (c AND 0x7f), Params = [], seq = None\<rparr>"
    from plain have "receive St_ground l c =
        Inr (St_ground, \<lparr>Output = Output l @ [?t], paramCharsAccum = [], params = [], seq = None\<rparr>)"
      by (simp add: receive_ground)
    moreover have "catalog_or_raw ?t"
      using uint_mask_bound [of c] by (simp add: catalog_or_raw_def)
    ultimately show ?thesis
      unfolding True by (simp add: in_sequence_def)
  qed
next
  case False
  with assms obtain s where s: "Lexer.seq l = Some s" "s \<noteq> []"
    by (auto simp: in_sequence_def)
  from receive_sends [OF False s, of c]
  obtain st' l' where r: "receive st l c = Inr (st', l')"
    and q: "Lexer.seq l' = Some (s @ [c AND 0x7f])"
    and o: "Output l' = Output l \<or>
        (\<exists>tv p. - 81 \<le> tv \<and> tv \<le> - 1 \<and>
           Output l' = Output l @ [\<lparr>Value = tv, Params = p, seq = Some (s @ [c AND 0x7f])\<rparr>])"
    by blast
  from q have i: "in_sequence st' l'"
    by (simp add: in_sequence_def)
  from o show ?thesis
  proof
    assume "Output l' = Output l"
    with r i show ?thesis by simp
  next
    assume "\<exists>tv p. - 81 \<le> tv \<and> tv \<le> - 1 \<and>
           Output l' = Output l @ [\<lparr>Value = tv, Params = p, seq = Some (s @ [c AND 0x7f])\<rparr>]"
    then obtain tv p where "- 81 \<le> tv" "tv \<le> - 1"
      and "Output l' = Output l @ [\<lparr>Value = tv, Params = p, seq = Some (s @ [c AND 0x7f])\<rparr>]"
      by blast
    with r i show ?thesis
      by (simp add: catalog_or_raw_def)
  qed
qed

lemma run_from_total:
  assumes "in_sequence st l"
  shows "\<exists>st' l' ts. run_from st l cs = Inr (st', l') \<and> in_sequence st' l'
    \<and> Output l' = Output l @ ts \<and> (\<forall>t\<in>set ts. catalog_or_raw t)"
  using assms
proof (induction cs arbitrary: st l)
  case Nil
  then show ?case by simp
next
  case (Cons c cs)
  from receive_total [OF Cons.prems, of c]
  obtain st1 l1 ts1 where r: "receive st l c = Inr (st1, l1)" and i: "in_sequence st1 l1"
    and o: "Output l1 = Output l @ ts1" and g: "\<forall>t\<in>set ts1. catalog_or_raw t"
    by blast
  from Cons.IH [OF i]
  obtain st' l' ts where r': "run_from st1 l1 cs = Inr (st', l')" and i': "in_sequence st' l'"
    and o': "Output l' = Output l1 @ ts" and g': "\<forall>t\<in>set ts. catalog_or_raw t"
    by blast
  from o o' have "Output l' = Output l @ (ts1 @ ts)" by simp
  moreover from g g' have "\<forall>t\<in>set (ts1 @ ts). catalog_or_raw t" by auto
  ultimately show ?case
    using r r' i' by (intro exI [of _ st'] exI [of _ l'] exI [of _ "ts1 @ ts"]) simp
qed

lemma in_sequence_ground: "in_sequence St_ground l"
  by (simp add: in_sequence_def)

lemma states_after_nonempty: "in_sequence st l \<Longrightarrow> states_after st l (c # cs) \<noteq> []"
  using receive_total [of st l c] by auto

text \<open>
  A sequence that is open: while the loop stays out of the ground state it sends nothing
  and \<^verbatim>\<open>l.seq\<close> grows by the masked bytes; the byte that brings it back sends at most one
  token, whose \<^verbatim>\<open>seq\<close> is the whole sequence.
\<close>

lemma open_run:
  assumes "st \<noteq> St_ground" and "Lexer.seq l = Some s" and "s \<noteq> []"
    and "St_ground \<notin> set (butlast (states_after st l cs))"
  shows "\<exists>st' l' ts. run_from st l cs = Inr (st', l') \<and> Output l' = Output l @ ts
    \<and> length ts \<le> 1
    \<and> (\<forall>t\<in>set ts. Token.seq t = Some (s @ map (\<lambda>b. b AND 0x7f) cs))
    \<and> (st' \<noteq> St_ground \<longrightarrow> ts = [])"
  using assms
proof (induction cs arbitrary: st l s)
  case Nil
  then show ?case by simp
next
  case (Cons c cs)
  from receive_sends [OF Cons.prems(1,2,3), of c]
  obtain st1 l1 where r: "receive st l c = Inr (st1, l1)"
    and q: "Lexer.seq l1 = Some (s @ [c AND 0x7f])"
    and k: "st1 \<noteq> St_ground \<longrightarrow> Output l1 = Output l"
    and o: "Output l1 = Output l \<or>
        (\<exists>tv p. - 81 \<le> tv \<and> tv \<le> - 1 \<and>
           Output l1 = Output l @ [\<lparr>Value = tv, Params = p, seq = Some (s @ [c AND 0x7f])\<rparr>])"
    by blast
  show ?case
  proof (cases cs)
    case Nil
    from o have "\<exists>ts. Output l1 = Output l @ ts \<and> length ts \<le> 1
        \<and> (\<forall>t\<in>set ts. Token.seq t = Some (s @ [c AND 0x7f]))
        \<and> (st1 \<noteq> St_ground \<longrightarrow> ts = [])"
    proof
      assume "Output l1 = Output l"
      then show ?thesis by (intro exI [of _ "[]"]) simp
    next
      assume "\<exists>tv p. - 81 \<le> tv \<and> tv \<le> - 1 \<and>
           Output l1 = Output l @ [\<lparr>Value = tv, Params = p, seq = Some (s @ [c AND 0x7f])\<rparr>]"
      then obtain tv p where
        e: "Output l1 = Output l @ [\<lparr>Value = tv, Params = p, seq = Some (s @ [c AND 0x7f])\<rparr>]"
        by blast
      with k have "st1 = St_ground" by auto
      with e show ?thesis
        by (intro exI [of _ "[\<lparr>Value = tv, Params = p, seq = Some (s @ [c AND 0x7f])\<rparr>]"]) simp
    qed
    with r Nil show ?thesis by auto
  next
    case (Cons c' cs')
    from q have "in_sequence st1 l1"
      by (simp add: in_sequence_def)
    then have "states_after st1 l1 cs \<noteq> []"
      unfolding Cons by (rule states_after_nonempty)
    with Cons.prems(4) r have st1: "st1 \<noteq> St_ground"
      and rest: "St_ground \<notin> set (butlast (states_after st1 l1 cs))"
      by auto
    from k st1 have same: "Output l1 = Output l" by simp
    have ne: "s @ [c AND 0x7f] \<noteq> []" by simp
    from Cons.IH [OF st1 q ne rest]
    obtain st' l' ts where "run_from st1 l1 cs = Inr (st', l')" "Output l' = Output l1 @ ts"
      "length ts \<le> 1" "\<forall>t\<in>set ts. Token.seq t = Some ((s @ [c AND 0x7f]) @ map (\<lambda>b. b AND 0x7f) cs)"
      "st' \<noteq> St_ground \<longrightarrow> ts = []"
      by blast
    with r same show ?thesis
      by (intro exI [of _ st'] exI [of _ l'] exI [of _ ts]) simp
  qed
qed

section \<open>Sequences that match nothing\<close>

lemma no_match_bracket:
  assumes body: "\<forall>b\<in>set body. b AND 0x7f = b \<and> accumulates b"
    and c: "c AND 0x7f = c" "IsLetter c"
    and nk: "body @ [c] \<notin> set known_bodies"
    and s2: "c \<in> {0x72, 0x48, 0x66} \<longrightarrow> Sscanf_d_d (body @ [c]) = None"
    and s1: "c \<in> {0x41, 0x42, 0x43, 0x44} \<longrightarrow> Sscanf_d (body @ [c]) = None"
  shows "emits l (0x1b # 0x5b # body @ [c]) []"
proof -
  define w where "w = body @ [c]"
  let ?l0 = "\<lparr>Output = Output l, paramCharsAccum = [], params = [],
         seq = Some (0x1b # 0x5b # w)\<rparr>"
  have run: "run_from St_ground l (0x1b # 0x5b # w) = interpTerm ?l0 c"
    unfolding w_def using body c by (rule run_bracket_7bit)
  from nk have k: "w \<notin> set known_bodies"
    by (simp add: w_def)
  have h: "case_h ?l0 w = ?l0" and l: "case_l ?l0 w = ?l0" and m: "case_m ?l0 w = ?l0"
    and g: "case_g ?l0 w = ?l0" and K: "case_upper_K ?l0 w = ?l0"
    and J: "case_upper_J ?l0 w = ?l0" and cc: "case_c ?l0 w = ?l0"
    and y: "case_y ?l0 w = ?l0" and q: "case_q ?l0 w = ?l0"
    using k by (simp_all add: known_bodies_def term_defs)
  from s2 have s2': "c \<in> {0x72, 0x48, 0x66} \<longrightarrow> Sscanf_d_d w = None"
    by (simp add: w_def)
  from s1 have s1': "c \<in> {0x41, 0x42, 0x43, 0x44} \<longrightarrow> Sscanf_d w = None"
    by (simp add: w_def)
  have r: "c = 0x72 \<Longrightarrow> case_r ?l0 w = ?l0"
    and H: "c = 0x48 \<Longrightarrow> case_upper_H ?l0 w = ?l0"
    and f: "c = 0x66 \<Longrightarrow> case_f ?l0 w = ?l0"
    using k s2' by (simp_all add: known_bodies_def term_defs)
  have A: "c = 0x41 \<Longrightarrow> case_upper_A ?l0 w = ?l0"
    and B: "c = 0x42 \<Longrightarrow> case_upper_B ?l0 w = ?l0"
    and C: "c = 0x43 \<Longrightarrow> case_upper_C ?l0 w = ?l0"
    and D: "c = 0x44 \<Longrightarrow> case_upper_D ?l0 w = ?l0"
    using s1' by (simp_all add: term_defs)
  have "interpTerm ?l0 c = Inr (St_ground, ?l0)"
    by (simp add: interpTerm_def Let_def h l m g K J cc y q r H f A B C D)
  then have "emits l (0x1b # 0x5b # w) []"
    unfolding emits_def run by simp
  then show ?thesis
    by (simp add: w_def)
qed

lemma abort_bracket:
  assumes body: "\<forall>b\<in>set body. b AND 0x7f = b \<and> accumulates b"
    and c: "c AND 0x7f = c" "\<not> IsLetter c" "\<not> IsPrint c \<or> IsSpace c"
  shows "emits l (0x1b # 0x5b # body @ [c]) []"
proof -
  from body have m: "map (\<lambda>b. b AND 0x7f) body = body"
    by (induction body) auto
  from body have acc: "\<forall>b\<in>set body. accumulates (b AND 0x7f)"
    by auto
  let ?l0 = "\<lparr>Output = Output l, paramCharsAccum = [], params = [],
         seq = Some (0x1b # 0x5b # body)\<rparr>"
  have "run_from St_ground l (0x1b # 0x5b # body @ [c]) =
      run_from St_afterLeftSquareBracket
        \<lparr>Output = Output l, paramCharsAccum = [], params = [], seq = Some [0x1b, 0x5b]\<rparr> (body @ [c])"
    by (simp add: receive_ground) (simp add: receive_def intermediateChar_def)
  also have "\<dots> = run_from St_afterLeftSquareBracket ?l0 [c]"
    using run_accumulates [OF acc, of _ "[0x1b, 0x5b]" "[c]"] by (simp add: m)
  also have "\<dots> = Inr (St_ground, ?l0\<lparr>seq := Some (0x1b # 0x5b # body @ [c])\<rparr>)"
    using c by (auto simp: receive_def afterLeftSquareBracket_def Let_def)
  finally show ?thesis
    by (simp add: emits_def)
qed

lemma letter_printable: "c AND 0x7f = c \<Longrightarrow> IsLetter c \<Longrightarrow> IsPrint c \<and> \<not> IsSpace c"
proof -
  assume a: "c AND 0x7f = c" and b: "IsLetter c"
  from a have "c \<le> 0x7f"
    using mask_le [of c] by simp
  with b show ?thesis
    by (auto simp: IsLetter_def IsPrint_def IsSpace_def word_le_def)
qed

lemma no_match_escape:
  assumes "c AND 0x7f = c" and "c \<notin> set escape_followups" and "\<not> IsDigit c"
  shows "emits l [0x1b, c] []"
  using assms
  by (simp only: emits_def run_esc)
    (simp add: receive_def intermediateChar_def escape_followups_def bytes_def Let_def)

lemma no_match_paren:
  assumes "c AND 0x7f = c" and "c \<notin> set paren_followups"
  shows "emits l [0x1b, 0x28, c] [] \<and> emits l [0x1b, 0x29, c] []"
  using assms
  by (simp only: emits_def run_esc)
    (simp add: receive_def intermediateChar_def afterLeftParen_def afterRightParen_def
      paren_followups_def bytes_def Let_def)

lemma no_match_pound:
  assumes "c AND 0x7f = c" and "c \<notin> set pound_followups"
  shows "emits l [0x1b, 0x23, c] []"
  using assms
  by (simp only: emits_def run_esc)
    (simp add: receive_def intermediateChar_def escPound_def pound_followups_def bytes_def Let_def)

lemma no_match_digit:
  assumes "c AND 0x7f = c" and "IsDigit d" and "d \<notin> {0x37, 0x38}" and "[d, c] \<notin> set digit_bodies"
  shows "emits l [0x1b, d, c] []"
proof -
  from assms(2) have d7: "d AND 0x7f = d"
    by (intro mask_id) (auto simp: IsDigit_def word_le_def)
  from assms(2,3) have i: "intermediateChar l' d = (St_escapeDigit, l')" for l'
    by (auto simp: intermediateChar_def IsDigit_def)
  show ?thesis
    using assms(1,4) d7
    by (simp only: emits_def run_esc)
      (auto simp: receive_def i escapeDigit_def digit_bodies_def bytes_def Let_def)
qed

text \<open>
  In the ground state the loop does not look at what the lexer holds but for \<^verbatim>\<open>Output\<close>:
  after a sequence that sent nothing, the bytes that follow are treated as if the sequence
  had not been there.
\<close>

lemma run_ground_output:
  "Output l1 = Output l2 \<Longrightarrow> run_from St_ground l1 (c # cs) = run_from St_ground l2 (c # cs)"
  by (simp add: receive_ground)

lemma emits_resume:
  assumes "emits l xs []"
  shows "emits l (xs @ ys) ts = emits l ys ts"
proof -
  from assms obtain l1 where r: "run_from St_ground l xs = Inr (St_ground, l1)"
    and o: "Output l1 = Output l"
    by (auto simp: emits_def split: sum.splits)
  show ?thesis
  proof (cases ys)
    case Nil
    with r o show ?thesis by (simp add: emits_def)
  next
    case (Cons c cs)
    from run_ground_output [OF o, of c cs] r show ?thesis
      by (simp add: emits_def run_from_append Cons)
  qed
qed

section \<open>The claims\<close>

text \<open>
  Claim C1, as the code has it. For every pair of numbers \<open>v\<close> and \<open>h\<close> from 0 to 255,
  written as decimal numerals, the bytes \<^verbatim>\<open>ESC [ v ; h H\<close> send exactly one token, with the
  value \<^verbatim>\<open>CursorPos\<close> and the parameters \<open>[v, h]\<close>; the bytes \<^verbatim>\<open>ESC [ H\<close> and \<^verbatim>\<open>ESC [ ; H\<close>
  send exactly one token, with the value \<^verbatim>\<open>CursorHome\<close> and no parameters; in every case
  the loop is in the ground state afterwards. (The parameters are scanned into variables of
  type \<^verbatim>\<open>byte\<close>, so a larger number does not match.)
\<close>

theorem C1_cursor_position:
  "(v \<le> 255 \<and> h \<le> 255 \<longrightarrow>
      emits l (0x1b # bytes ''['' @ decimal v @ bytes '';'' @ decimal h @ bytes ''H'')
        [\<lparr>Value = CursorPos, Params = [int v, int h],
          seq = Some (0x1b # bytes ''['' @ decimal v @ bytes '';'' @ decimal h @ bytes ''H'')\<rparr>])
   \<and> emits l (0x1b # bytes ''[H'')
        [\<lparr>Value = CursorHome, Params = [], seq = Some (0x1b # bytes ''[H'')\<rparr>]
   \<and> emits l (0x1b # bytes ''[;H'')
        [\<lparr>Value = CursorHome, Params = [], seq = Some (0x1b # bytes ''[;H'')\<rparr>]"
proof -
  have pos: "emits l (0x1b # bytes ''['' @ decimal v @ bytes '';'' @ decimal h @ bytes ''H'')
        [\<lparr>Value = CursorPos, Params = [int v, int h],
          seq = Some (0x1b # bytes ''['' @ decimal v @ bytes '';'' @ decimal h @ bytes ''H'')\<rparr>]"
    if "v \<le> 255 \<and> h \<le> 255"
    using emits_decimal_two [of "[]" "0x48" CursorPos l v h] that
    by (simp add: bytes_def)
  have home: "emits l (0x1b # bytes ''[H'')
        [\<lparr>Value = CursorHome, Params = [], seq = Some (0x1b # bytes ''[H'')\<rparr>]"
    by (simp only: emits_def run_esc) (simp add: state_defs case_upper_H_def)
  have home': "emits l (0x1b # bytes ''[;H'')
        [\<lparr>Value = CursorHome, Params = [], seq = Some (0x1b # bytes ''[;H'')\<rparr>]"
    by (simp only: emits_def run_esc) (simp add: state_defs case_upper_H_def)
  from pos home home' show ?thesis by blast
qed

theorem C1_witness:
  "(13::nat) \<le> 255 \<and> (17::nat) \<le> 255
   \<and> emits NewLexer (0x1b # bytes ''[13;17H'')
        [\<lparr>Value = CursorPos, Params = [13, 17], seq = Some (0x1b # bytes ''[13;17H'')\<rparr>]"
proof -
  have d: "decimal 13 = bytes ''13''" "decimal 17 = bytes ''17''"
    by (simp_all add: decimal.simps bytes_def)
  have "(13::nat) \<le> 255 \<and> (17::nat) \<le> 255" by simp
  with C1_cursor_position [of 13 17 NewLexer]
  have "emits NewLexer (0x1b # bytes ''['' @ decimal 13 @ bytes '';'' @ decimal 17 @ bytes ''H'')
        [\<lparr>Value = CursorPos, Params = [int 13, int 17],
          seq = Some (0x1b # bytes ''['' @ decimal 13 @ bytes '';'' @ decimal 17 @ bytes ''H'')\<rparr>]"
    by blast
  then show ?thesis
    unfolding d by (simp add: bytes_def)
qed

text \<open>
  The claim as the specification states it, for every pair of decimal numbers, fails at
  \<open>v = 256\<close>: the bytes \<^verbatim>\<open>ESC [ 2 5 6 ; 1 H\<close> send no token.
\<close>

theorem C1_counterexample:
  "emits NewLexer (0x1b # bytes ''[256;1H'') []"
  by (simp only: emits_def run_esc)
    (simp add: state_defs case_upper_H_def scan_defs NewLexer_def)

text \<open>
  Claim C2. For every byte that \<^verbatim>\<open>ground\<close> processes: the escape introducer 0x1B sends
  no token, starts a new sequence buffer holding that byte and moves to
  \<^verbatim>\<open>intermediateChar\<close>; any other byte sends exactly one token whose value is the byte
  and stays in the ground state. So the loop, on \<open>n\<close> plain 7-bit bytes, sends exactly \<open>n\<close>
  tokens, one for each byte and in their order, and is in the ground state after them.
\<close>

theorem C2_ground:
  "(c = 0x1b \<longrightarrow>
      ground l c =
        (St_intermediateChar,
         \<lparr>Output = Output l, paramCharsAccum = [], params = [], seq = Some [0x1b]\<rparr>))
   \<and> (c \<noteq> 0x1b \<longrightarrow>
      ground l c =
        (St_ground,
         \<lparr>Output = Output l @ [\<lparr>Value = uint c, Params = [], seq = None\<rparr>],
          paramCharsAccum = [], params = [], seq = None\<rparr>))
   \<and> ((\<forall>b\<in>set cs. b \<le> 0x7f \<and> b \<noteq> 0x1b) \<longrightarrow>
      emits l cs (map (\<lambda>b. \<lparr>Value = uint b, Params = [], seq = None\<rparr>) cs)
      \<and> length (map (\<lambda>b. \<lparr>Value = uint b, Params = [], seq = None\<rparr>) cs) = length cs)"
proof -
  have "emits l cs (map (\<lambda>b. \<lparr>Value = uint b, Params = [], seq = None\<rparr>) cs)"
    if h: "\<forall>b\<in>set cs. b \<le> 0x7f \<and> b \<noteq> 0x1b"
  proof -
    from h have m: "\<forall>b\<in>set cs. b AND 0x7f = b"
      by (simp add: mask_id)
    then have "\<forall>b\<in>set cs. b AND 0x7f \<noteq> 0x1b"
      using h by simp
    from emits_plain [OF this, of l]
    have "emits l cs (map (\<lambda>b. \<lparr>Value = uint (b AND 0x7f), Params = [], seq = None\<rparr>) cs)" .
    moreover have "map (\<lambda>b. \<lparr>Value = uint (b AND 0x7f), Params = [], seq = None\<rparr>) cs =
        map (\<lambda>b. \<lparr>Value = uint b, Params = [], seq = None\<rparr>) cs"
      using m by (intro map_cong) auto
    ultimately show ?thesis by simp
  qed
  then show ?thesis
    by (simp add: ground_def send_def)
qed

theorem C2_witness:
  "(0x41::byte) \<le> 0x7f \<and> (0x41::byte) \<noteq> 0x1b \<and> (0x42::byte) \<le> 0x7f \<and> (0x42::byte) \<noteq> 0x1b
   \<and> emits NewLexer [0x41, 0x42]
        [\<lparr>Value = 0x41, Params = [], seq = None\<rparr>, \<lparr>Value = 0x42, Params = [], seq = None\<rparr>]
   \<and> ground NewLexer 0x1b =
        (St_intermediateChar,
         \<lparr>Output = [], paramCharsAccum = [], params = [], seq = Some [0x1b]\<rparr>)
   \<and> ground NewLexer 0x41 =
        (St_ground,
         \<lparr>Output = [\<lparr>Value = 0x41, Params = [], seq = None\<rparr>],
          paramCharsAccum = [], params = [], seq = None\<rparr>)"
  using C2_ground [of "0x1b" NewLexer "[0x41, 0x42]"] C2_ground [of "0x41" NewLexer "[]"]
  by (simp add: NewLexer_def)

text \<open>
  Claim C3. Malformed input has no error channel: on every input the loop returns a state
  and a lexer and never panics. A sequence that starts with the escape introducer and
  matches nothing sends no token and leaves the loop in the ground state:
  \<^item> a bracket sequence whose letter is no known terminator or whose body is none of the
    literals of that terminator (and, for the terminators with parameters, does not scan
    as the numbers);
  \<^item> a bracket sequence broken by a byte that is not printable or is white space;
  \<^item> a byte after the escape, after \<^verbatim>\<open>ESC (\<close>, \<^verbatim>\<open>ESC )\<close>, \<^verbatim>\<open>ESC #\<close> or after \<^verbatim>\<open>ESC\<close> and a
    digit that has no case.
  After a sequence that sent nothing, the bytes that follow send the same tokens as they
  do without it, so a good sequence fed right after is recognized.
\<close>

theorem C3_unmatched_sequences:
  "(\<exists>st l'. run cs = Inr (st, l'))
   \<and> ((\<forall>b\<in>set body. b \<le> 0x7f \<and> accumulates b) \<and> c \<le> 0x7f \<and> IsLetter c
        \<and> body @ [c] \<notin> set known_bodies
        \<and> (c \<in> {0x72, 0x48, 0x66} \<longrightarrow> Sscanf_d_d (body @ [c]) = None)
        \<and> (c \<in> {0x41, 0x42, 0x43, 0x44} \<longrightarrow> Sscanf_d (body @ [c]) = None) \<longrightarrow>
      emits l (0x1b # bytes ''['' @ body @ [c]) [])
   \<and> ((\<forall>b\<in>set body. b \<le> 0x7f \<and> accumulates b) \<and> c \<le> 0x7f
        \<and> (\<not> IsPrint c \<or> IsSpace c) \<longrightarrow>
      emits l (0x1b # bytes ''['' @ body @ [c]) [])
   \<and> (c \<le> 0x7f \<and> c \<notin> set escape_followups \<and> \<not> IsDigit c \<longrightarrow> emits l [0x1b, c] [])
   \<and> (c \<le> 0x7f \<and> c \<notin> set paren_followups \<longrightarrow>
        emits l (0x1b # bytes ''('' @ [c]) [] \<and> emits l (0x1b # bytes '')'' @ [c]) [])
   \<and> (c \<le> 0x7f \<and> c \<notin> set pound_followups \<longrightarrow> emits l (0x1b # bytes ''#'' @ [c]) [])
   \<and> (c \<le> 0x7f \<and> IsDigit d \<and> d \<notin> set (bytes ''78'') \<and> [d, c] \<notin> set digit_bodies \<longrightarrow>
        emits l [0x1b, d, c] [])
   \<and> (emits l xs [] \<longrightarrow> emits l (xs @ ys) ts = emits l ys ts)"
proof -
  have total: "\<exists>st l'. run cs = Inr (st, l')"
    using run_from_total [OF in_sequence_ground, of NewLexer cs] by (auto simp: run_def)
  have bracket: "emits l (0x1b # bytes ''['' @ body @ [c]) []"
    if "(\<forall>b\<in>set body. b \<le> 0x7f \<and> accumulates b) \<and> c \<le> 0x7f \<and> IsLetter c
        \<and> body @ [c] \<notin> set known_bodies
        \<and> (c \<in> {0x72, 0x48, 0x66} \<longrightarrow> Sscanf_d_d (body @ [c]) = None)
        \<and> (c \<in> {0x41, 0x42, 0x43, 0x44} \<longrightarrow> Sscanf_d (body @ [c]) = None)"
  proof -
    from that have "\<forall>b\<in>set body. b AND 0x7f = b \<and> accumulates b" and "c AND 0x7f = c"
      by (simp_all add: mask_id)
    from no_match_bracket [OF this, of l] that show ?thesis
      by (simp add: bytes_def)
  qed
  have abort: "emits l (0x1b # bytes ''['' @ body @ [c]) []"
    if "(\<forall>b\<in>set body. b \<le> 0x7f \<and> accumulates b) \<and> c \<le> 0x7f \<and> (\<not> IsPrint c \<or> IsSpace c)"
  proof -
    from that have b: "\<forall>b\<in>set body. b AND 0x7f = b \<and> accumulates b" and c: "c AND 0x7f = c"
      by (simp_all add: mask_id)
    from that letter_printable [OF c] have "\<not> IsLetter c"
      by auto
    from abort_bracket [OF b c this, of l] that show ?thesis
      by (simp add: bytes_def)
  qed
  have esc: "emits l [0x1b, c] []"
    if "c \<le> 0x7f \<and> c \<notin> set escape_followups \<and> \<not> IsDigit c"
    using that by (intro no_match_escape) (simp_all add: mask_id)
  have paren: "emits l (0x1b # bytes ''('' @ [c]) [] \<and> emits l (0x1b # bytes '')'' @ [c]) []"
    if "c \<le> 0x7f \<and> c \<notin> set paren_followups"
    using no_match_paren [of c l] that by (simp add: mask_id bytes_def)
  have pound: "emits l (0x1b # bytes ''#'' @ [c]) []"
    if "c \<le> 0x7f \<and> c \<notin> set pound_followups"
    using no_match_pound [of c l] that by (simp add: mask_id bytes_def)
  have digit: "emits l [0x1b, d, c] []"
    if "c \<le> 0x7f \<and> IsDigit d \<and> d \<notin> set (bytes ''78'') \<and> [d, c] \<notin> set digit_bodies"
    using that by (intro no_match_digit) (simp_all add: mask_id bytes_def)
  have resume: "emits l (xs @ ys) ts = emits l ys ts" if "emits l xs []"
    using that by (rule emits_resume)
  from total bracket abort esc paren pound digit resume show ?thesis
    by blast
qed

theorem C3_witness:
  "emits NewLexer (0x1b # bytes ''[99z'') []
   \<and> emits NewLexer (0x1b # bytes ''[99z'' @ 0x1b # bytes ''[H'')
        [\<lparr>Value = CursorHome, Params = [], seq = Some (0x1b # bytes ''[H'')\<rparr>]
   \<and> emits NewLexer (0x1b # bytes ''[?2h'') []
   \<and> emits NewLexer (0x1b # bytes ''[1'' @ [0x20]) []
   \<and> emits NewLexer (0x1b # bytes ''X'') []
   \<and> emits NewLexer (0x1b # bytes ''(X'') []
   \<and> emits NewLexer (0x1b # bytes ''#X'') []
   \<and> emits NewLexer (0x1b # bytes ''5X'') []"
proof -
  have acc: "\<forall>b\<in>set (bytes ''99''). b \<le> 0x7f \<and> accumulates b"
    "\<forall>b\<in>set (bytes ''?2''). b \<le> 0x7f \<and> accumulates b"
    "\<forall>b\<in>set (bytes ''1''). b \<le> 0x7f \<and> accumulates b"
    by (simp_all add: bytes_def accumulates_def IsLetter_def IsPrint_def IsSpace_def)
  have w1: "emits NewLexer (0x1b # bytes ''[99z'') []"
    using C3_unmatched_sequences [of "[]" "bytes ''99''" "0x7a" NewLexer 0 "[]" "[]" "[]"] acc(1)
    by (simp add: bytes_def known_bodies_def IsLetter_def)
  have good: "emits NewLexer (0x1b # bytes ''[H'')
        [\<lparr>Value = CursorHome, Params = [], seq = Some (0x1b # bytes ''[H'')\<rparr>]"
    by (simp only: emits_def run_esc) (simp add: state_defs case_upper_H_def NewLexer_def)
  have w2: "emits NewLexer (0x1b # bytes ''[99z'' @ 0x1b # bytes ''[H'')
        [\<lparr>Value = CursorHome, Params = [], seq = Some (0x1b # bytes ''[H'')\<rparr>]"
    using C3_unmatched_sequences [of "[]" "[]" 0 NewLexer 0 "0x1b # bytes ''[99z''"
        "0x1b # bytes ''[H''" "[\<lparr>Value = CursorHome, Params = [], seq = Some (0x1b # bytes ''[H'')\<rparr>]"]
      w1 good
    by simp
  have w3: "emits NewLexer (0x1b # bytes ''[?2h'') []"
    using C3_unmatched_sequences [of "[]" "bytes ''?2''" "0x68" NewLexer 0 "[]" "[]" "[]"] acc(2)
    by (simp add: bytes_def known_bodies_def IsLetter_def)
  have w4: "emits NewLexer (0x1b # bytes ''[1'' @ [0x20]) []"
    using C3_unmatched_sequences [of "[]" "bytes ''1''" "0x20" NewLexer 0 "[]" "[]" "[]"] acc(3)
    by (simp add: bytes_def IsSpace_def)
  have w5: "emits NewLexer (0x1b # bytes ''X'') []"
    and w6: "emits NewLexer (0x1b # bytes ''(X'') []"
    and w7: "emits NewLexer (0x1b # bytes ''#X'') []"
    using C3_unmatched_sequences [of "[]" "[]" "0x58" NewLexer 0 "[]" "[]" "[]"]
    by (simp_all add: bytes_def escape_followups_def paren_followups_def pound_followups_def
        IsDigit_def)
  have w8: "emits NewLexer (0x1b # bytes ''5X'') []"
    using C3_unmatched_sequences [of "[]" "[]" "0x58" NewLexer "0x35" "[]" "[]" "[]"]
    by (simp add: bytes_def digit_bodies_def IsDigit_def)
  from w1 w2 w3 w4 w5 w6 w7 w8 show ?thesis by blast
qed

text \<open>
  Claim C4, as the code has it. For each digit \<open>n\<close> among 1, 3, 4, 5, 6, 7, 8 and 9 the
  bytes \<^verbatim>\<open>ESC [ ? n h\<close> send exactly one token: \<^verbatim>\<open>SetAppl\<close>, \<^verbatim>\<open>SetCol\<close>, \<^verbatim>\<open>SetSmooth\<close>,
  \<^verbatim>\<open>SetRevScrn\<close>, \<^verbatim>\<open>SetOrgRel\<close>, \<^verbatim>\<open>SetWrap\<close>, \<^verbatim>\<open>SetRep\<close> and \<^verbatim>\<open>SetInter\<close> in this order,
  which are the catalog values -49, -50, -61, -60, -58, -72, -59 and -52. The switch has
  no case for \<^verbatim>\<open>?2h\<close>: these bytes send no token.
\<close>

theorem C4_set_modes:
  "emits l (0x1b # bytes ''[?1h'')
        [\<lparr>Value = SetAppl, Params = [], seq = Some (0x1b # bytes ''[?1h'')\<rparr>]
   \<and> emits l (0x1b # bytes ''[?3h'')
        [\<lparr>Value = SetCol, Params = [], seq = Some (0x1b # bytes ''[?3h'')\<rparr>]
   \<and> emits l (0x1b # bytes ''[?4h'')
        [\<lparr>Value = SetSmooth, Params = [], seq = Some (0x1b # bytes ''[?4h'')\<rparr>]
   \<and> emits l (0x1b # bytes ''[?5h'')
        [\<lparr>Value = SetRevScrn, Params = [], seq = Some (0x1b # bytes ''[?5h'')\<rparr>]
   \<and> emits l (0x1b # bytes ''[?6h'')
        [\<lparr>Value = SetOrgRel, Params = [], seq = Some (0x1b # bytes ''[?6h'')\<rparr>]
   \<and> emits l (0x1b # bytes ''[?7h'')
        [\<lparr>Value = SetWrap, Params = [], seq = Some (0x1b # bytes ''[?7h'')\<rparr>]
   \<and> emits l (0x1b # bytes ''[?8h'')
        [\<lparr>Value = SetRep, Params = [], seq = Some (0x1b # bytes ''[?8h'')\<rparr>]
   \<and> emits l (0x1b # bytes ''[?9h'')
        [\<lparr>Value = SetInter, Params = [], seq = Some (0x1b # bytes ''[?9h'')\<rparr>]
   \<and> emits l (0x1b # bytes ''[?2h'') []
   \<and> [SetAppl, SetCol, SetSmooth, SetRevScrn, SetOrgRel, SetWrap, SetRep, SetInter] =
       [-49, -50, -61, -60, -58, -72, -59, -52]"
  by (simp only: emits_def run_esc) (simp add: state_defs case_h_def TokVal_defs)

text \<open>
  The claim as the specification states it fails at \<open>n = 2\<close>: on \<^verbatim>\<open>ESC [ ? 2 h\<close> the lexer
  sends no token at all.
\<close>

theorem C4_counterexample:
  "emits NewLexer (0x1b # bytes ''[?2h'') []"
  by (simp only: emits_def run_esc) (simp add: state_defs case_h_def NewLexer_def)

text \<open>
  Claim C5, as the code has it. The numeric parameters of the terminators \<^verbatim>\<open>r\<close>, \<^verbatim>\<open>H\<close>,
  \<^verbatim>\<open>f\<close> (two parameters) and \<^verbatim>\<open>A\<close>, \<^verbatim>\<open>B\<close>, \<^verbatim>\<open>C\<close>, \<^verbatim>\<open>D\<close> (one parameter) are decoded as
  integers from 0 to 255, which covers two-digit coordinates: for numbers up to 255 the
  sequence sends exactly one token with the numbers as its parameters, and when a number
  is larger it sends no token. When \<^verbatim>\<open>Sscanf\<close> rejects the body (and, for \<^verbatim>\<open>H\<close> and \<^verbatim>\<open>f\<close>,
  the body is not the home form) the sequence sends no token. In every case the loop is in
  the ground state afterwards, so the stream continues.
\<close>

theorem C5_numeric_parameters:
  "((c, tv) \<in> {(0x72, SetWin), (0x48, CursorPos), (0x66, HvPos)} \<longrightarrow>
      emits l (0x1b # bytes ''['' @ decimal v @ bytes '';'' @ decimal h @ [c])
        (if v \<le> 255 \<and> h \<le> 255
         then [\<lparr>Value = tv, Params = [int v, int h],
                seq = Some (0x1b # bytes ''['' @ decimal v @ bytes '';'' @ decimal h @ [c])\<rparr>]
         else []))
   \<and> ((c, tv) \<in> {(0x41, CursorUp), (0x42, CursorDn), (0x43, CursorRt), (0x44, CursorLf)} \<longrightarrow>
      emits l (0x1b # bytes ''['' @ decimal n @ [c])
        (if n \<le> 255
         then [\<lparr>Value = tv, Params = [int n],
                seq = Some (0x1b # bytes ''['' @ decimal n @ [c])\<rparr>]
         else []))
   \<and> ((\<forall>b\<in>set body. b \<le> 0x7f \<and> accumulates b) \<and> c \<in> {0x72, 0x48, 0x66}
        \<and> Sscanf_d_d (body @ [c]) = None
        \<and> body @ [c] \<notin> {bytes ''H'', bytes '';H'', bytes ''f'', bytes '';f''} \<longrightarrow>
      emits l (0x1b # bytes ''['' @ body @ [c]) [])
   \<and> ((\<forall>b\<in>set body. b \<le> 0x7f \<and> accumulates b) \<and> c \<in> {0x41, 0x42, 0x43, 0x44}
        \<and> Sscanf_d (body @ [c]) = None \<longrightarrow>
      emits l (0x1b # bytes ''['' @ body @ [c]) [])"
proof -
  have two: "emits l (0x1b # bytes ''['' @ decimal v @ bytes '';'' @ decimal h @ [c])
        (if v \<le> 255 \<and> h \<le> 255
         then [\<lparr>Value = tv, Params = [int v, int h],
                seq = Some (0x1b # bytes ''['' @ decimal v @ bytes '';'' @ decimal h @ [c])\<rparr>]
         else [])"
    if "(c, tv) \<in> {(0x72, SetWin), (0x48, CursorPos), (0x66, HvPos)}"
    using emits_decimal_two [of "[]" c tv l v h] that by (auto split: if_splits)
  have one: "emits l (0x1b # bytes ''['' @ decimal n @ [c])
        (if n \<le> 255
         then [\<lparr>Value = tv, Params = [int n],
                seq = Some (0x1b # bytes ''['' @ decimal n @ [c])\<rparr>]
         else [])"
    if "(c, tv) \<in> {(0x41, CursorUp), (0x42, CursorDn), (0x43, CursorRt), (0x44, CursorLf)}"
    using emits_decimal_one [of "[]" c tv l n] that by (auto split: if_splits)
  have fail2: "emits l (0x1b # bytes ''['' @ body @ [c]) []"
    if "(\<forall>b\<in>set body. b \<le> 0x7f \<and> accumulates b) \<and> c \<in> {0x72, 0x48, 0x66}
        \<and> Sscanf_d_d (body @ [c]) = None
        \<and> body @ [c] \<notin> {bytes ''H'', bytes '';H'', bytes ''f'', bytes '';f''}"
  proof -
    from that have "\<forall>b\<in>set body. b AND 0x7f = b \<and> accumulates b"
      by (simp add: mask_id)
    from emits_scan_fails_two [OF this, of c l] that show ?thesis
      by (simp add: bytes_def)
  qed
  have fail1: "emits l (0x1b # bytes ''['' @ body @ [c]) []"
    if "(\<forall>b\<in>set body. b \<le> 0x7f \<and> accumulates b) \<and> c \<in> {0x41, 0x42, 0x43, 0x44}
        \<and> Sscanf_d (body @ [c]) = None"
  proof -
    from that have "\<forall>b\<in>set body. b AND 0x7f = b \<and> accumulates b"
      by (simp add: mask_id)
    from emits_scan_fails_one [OF this, of c l] that show ?thesis
      by (simp add: bytes_def)
  qed
  from two one fail2 fail1 show ?thesis by blast
qed

theorem C5_witness:
  "emits NewLexer (0x1b # bytes ''[13;17r'')
        [\<lparr>Value = SetWin, Params = [13, 17], seq = Some (0x1b # bytes ''[13;17r'')\<rparr>]
   \<and> emits NewLexer (0x1b # bytes ''[255A'')
        [\<lparr>Value = CursorUp, Params = [255], seq = Some (0x1b # bytes ''[255A'')\<rparr>]
   \<and> emits NewLexer (0x1b # bytes ''[256A'') []
   \<and> Sscanf_d_d (bytes ''7H'') = None \<and> emits NewLexer (0x1b # bytes ''[7H'') []
   \<and> Sscanf_d (bytes ''?B'') = None \<and> emits NewLexer (0x1b # bytes ''[?B'') []"
proof -
  have d: "decimal 13 = bytes ''13''" "decimal 17 = bytes ''17''"
    "decimal 255 = bytes ''255''" "decimal 256 = bytes ''256''"
    by (simp_all add: decimal.simps bytes_def)
  have s2: "Sscanf_d_d (bytes ''7H'') = None"
    by (simp add: scan_defs bytes_def)
  have s1: "Sscanf_d (bytes ''?B'') = None"
    by (simp add: scan_defs bytes_def)
  have a7: "\<forall>b\<in>set (bytes ''7''). b \<le> 0x7f \<and> accumulates b"
    and aq: "\<forall>b\<in>set (bytes ''?''). b \<le> 0x7f \<and> accumulates b"
    by (simp_all add: bytes_def accumulates_def IsLetter_def IsPrint_def IsSpace_def)
  have w1: "emits NewLexer (0x1b # bytes ''[13;17r'')
        [\<lparr>Value = SetWin, Params = [13, 17], seq = Some (0x1b # bytes ''[13;17r'')\<rparr>]"
    using C5_numeric_parameters [of "0x72" SetWin NewLexer 13 17 0 "[]"]
    unfolding d by (simp add: bytes_def)
  have w2: "emits NewLexer (0x1b # bytes ''[255A'')
        [\<lparr>Value = CursorUp, Params = [255], seq = Some (0x1b # bytes ''[255A'')\<rparr>]"
    using C5_numeric_parameters [of "0x41" CursorUp NewLexer 0 0 255 "[]"]
    unfolding d by (simp add: bytes_def)
  have w3: "emits NewLexer (0x1b # bytes ''[256A'') []"
    using C5_numeric_parameters [of "0x41" CursorUp NewLexer 0 0 256 "[]"]
    unfolding d by (simp add: bytes_def)
  have w4: "emits NewLexer (0x1b # bytes ''[7H'') []"
    using C5_numeric_parameters [of "0x48" CursorPos NewLexer 0 0 0 "bytes ''7''"] a7 s2
    by (simp add: bytes_def)
  have w5: "emits NewLexer (0x1b # bytes ''[?B'') []"
    using C5_numeric_parameters [of "0x42" CursorDn NewLexer 0 0 0 "bytes ''?''"] aq s1
    by (simp add: bytes_def)
  from w1 w2 w3 s2 w4 s1 w5 show ?thesis by blast
qed

text \<open>
  The claim as the specification states it, with parameters up to 999, fails at
  \<open>v = h = 999\<close>: the bytes \<^verbatim>\<open>ESC [ 9 9 9 ; 9 9 9 H\<close> send no token.
\<close>

theorem C5_counterexample:
  "emits NewLexer (0x1b # bytes ''[999;999H'') []"
  by (simp only: emits_def run_esc)
    (simp add: state_defs case_upper_H_def scan_defs NewLexer_def)

text \<open>
  Claim C6, as the code has it. A token sent for an escape sequence carries in \<^verbatim>\<open>seq\<close> the
  bytes received for it, masked to 7 bits, from the escape introducer to the last byte:
  when the first byte is the introducer and the loop has not been back in the ground
  state before the last byte, the bytes send at most one token and its \<^verbatim>\<open>seq\<close> is the whole
  masked input. A token sent for a plain character in the ground state has no bytes: its
  \<^verbatim>\<open>seq\<close> is \<^verbatim>\<open>nil\<close>, since \<^verbatim>\<open>ground\<close> clears \<^verbatim>\<open>l.seq\<close> before it sends.
\<close>

theorem C6_raw_bytes:
  "(cs \<noteq> [] \<and> hd cs AND 0x7f = 0x1b
      \<and> St_ground \<notin> set (butlast (states_after St_ground l cs)) \<longrightarrow>
      (\<exists>st l' ts. run_from St_ground l cs = Inr (st, l') \<and> Output l' = Output l @ ts
         \<and> length ts \<le> 1
         \<and> (\<forall>t\<in>set ts. Token.seq t = Some (map (\<lambda>b. b AND 0x7f) cs))))
   \<and> (c AND 0x7f \<noteq> 0x1b \<longrightarrow>
      (\<exists>l'. receive St_ground l c = Inr (St_ground, l')
         \<and> Output l' = Output l @ [\<lparr>Value = uint (c AND 0x7f), Params = [], seq = None\<rparr>]))"
proof -
  have escape: "\<exists>st l' ts. run_from St_ground l cs = Inr (st, l') \<and> Output l' = Output l @ ts
         \<and> length ts \<le> 1
         \<and> (\<forall>t\<in>set ts. Token.seq t = Some (map (\<lambda>b. b AND 0x7f) cs))"
    if h: "cs \<noteq> [] \<and> hd cs AND 0x7f = 0x1b
      \<and> St_ground \<notin> set (butlast (states_after St_ground l cs))"
  proof -
    from h obtain c0 cs' where cs: "cs = c0 # cs'" and c0: "c0 AND 0x7f = 0x1b"
      by (cases cs) auto
    let ?l0 = "\<lparr>Output = Output l, paramCharsAccum = [], params = [], seq = Some [0x1b]\<rparr>"
    have r: "receive St_ground l c0 = Inr (St_intermediateChar, ?l0)"
      using c0 by (simp add: receive_ground)
    show ?thesis
    proof (cases cs')
      case Nil
      with r cs show ?thesis by simp
    next
      case (Cons c1 cs'')
      have "in_sequence St_intermediateChar ?l0"
        by (simp add: in_sequence_def)
      then have "states_after St_intermediateChar ?l0 cs' \<noteq> []"
        unfolding Cons by (rule states_after_nonempty)
      with h r cs have "St_ground \<notin> set (butlast (states_after St_intermediateChar ?l0 cs'))"
        by auto
      from open_run [of St_intermediateChar ?l0 "[0x1b]" cs', OF _ _ _ this]
      obtain st l' ts where "run_from St_intermediateChar ?l0 cs' = Inr (st, l')"
        "Output l' = Output ?l0 @ ts" "length ts \<le> 1"
        "\<forall>t\<in>set ts. Token.seq t = Some ([0x1b] @ map (\<lambda>b. b AND 0x7f) cs')"
        by auto
      with r cs c0 show ?thesis
        by (intro exI [of _ st] exI [of _ l'] exI [of _ ts]) simp
    qed
  qed
  have plain: "\<exists>l'. receive St_ground l c = Inr (St_ground, l')
         \<and> Output l' = Output l @ [\<lparr>Value = uint (c AND 0x7f), Params = [], seq = None\<rparr>]"
    if "c AND 0x7f \<noteq> 0x1b"
    using that by (simp add: receive_ground)
  from escape plain show ?thesis by blast
qed

theorem C6_witness:
  "0x1b # bytes ''[13;17H'' \<noteq> [] \<and> hd (0x1b # bytes ''[13;17H'') AND 0x7f = 0x1b
   \<and> St_ground \<notin> set (butlast (states_after St_ground NewLexer (0x1b # bytes ''[13;17H'')))
   \<and> (\<exists>st l' ts. run_from St_ground NewLexer (0x1b # bytes ''[13;17H'') = Inr (st, l')
         \<and> Output l' = Output NewLexer @ ts \<and> length ts \<le> 1
         \<and> (\<forall>t\<in>set ts. Token.seq t = Some (map (\<lambda>b. b AND 0x7f) (0x1b # bytes ''[13;17H''))))
   \<and> run (0x1b # bytes ''[13;17H'') =
       Inr (St_ground,
            \<lparr>Output = [\<lparr>Value = CursorPos, Params = [13, 17],
                         seq = Some (0x1b # bytes ''[13;17H'')\<rparr>],
             paramCharsAccum = [], params = [13, 17], seq = Some (0x1b # bytes ''[13;17H'')\<rparr>)
   \<and> (0x41::byte) AND 0x7f \<noteq> 0x1b
   \<and> (\<exists>l'. receive St_ground NewLexer 0x41 = Inr (St_ground, l')
         \<and> Output l' = Output NewLexer @ [\<lparr>Value = uint ((0x41::byte) AND 0x7f), Params = [], seq = None\<rparr>])"
proof -
  have h: "0x1b # bytes ''[13;17H'' \<noteq> [] \<and> hd (0x1b # bytes ''[13;17H'') AND 0x7f = 0x1b
      \<and> St_ground \<notin> set (butlast (states_after St_ground NewLexer (0x1b # bytes ''[13;17H'')))"
    by (simp add: state_defs NewLexer_def ground_def)
  have p: "(0x41::byte) AND 0x7f \<noteq> 0x1b"
    by simp
  have e: "run (0x1b # bytes ''[13;17H'') =
       Inr (St_ground,
            \<lparr>Output = [\<lparr>Value = CursorPos, Params = [13, 17],
                         seq = Some (0x1b # bytes ''[13;17H'')\<rparr>],
             paramCharsAccum = [], params = [13, 17], seq = Some (0x1b # bytes ''[13;17H'')\<rparr>)"
    by (simp add: run_def state_defs NewLexer_def ground_def case_upper_H_def scan_defs)
  from C6_raw_bytes [of "0x1b # bytes ''[13;17H''" NewLexer "0x41"] h p e show ?thesis
    by blast
qed

text \<open>
  The claim as the specification states it fails for a plain character: the token sent
  for the byte \<^verbatim>\<open>A\<close> has an empty \<^verbatim>\<open>seq\<close>, not the byte.
\<close>

theorem C6_counterexample:
  "run [0x41] =
     Inr (St_ground,
          \<lparr>Output = [\<lparr>Value = 0x41, Params = [], seq = None\<rparr>],
           paramCharsAccum = [], params = [], seq = None\<rparr>)
   \<and> (None :: byte list option) \<noteq> Some [0x41]"
  by (simp add: run_def receive_ground NewLexer_def)

text \<open>
  Claim C7. The name lookup is total: \<^verbatim>\<open>init\<close> does not panic; for each of the 81 named
  values, taken in the order of the const pool, \<^verbatim>\<open>String\<close> returns the name of that value;
  and for every other value, the raw character values 0 to 127 among them, it returns the
  marker \<^verbatim>\<open>?\<close>.
\<close>

theorem C7_name_lookup:
  "init = Inr ()
   \<and> map String
       [Align, AltKeypad, Blink, Bold, ClearBOL, ClearBOS, ClearEOL,
        ClearEOS, ClearLine, ClearScreen, CursorDn, CursorHome, CursorLf, CursorPos,
        CursorRt, CursorUp, DevStat, DhBot, DhTop, Dwsh, GetCursor,
        HvHome, HvPos, Ident, Index, Invisible, Led1, Led2,
        Led3, Led4, LedsOff, LowInt, ModesOff, NextLine, NumKeypad,
        Reset, ResetCol, ResetInter, ResetRep, ResetWrap, RestoreCursor, Reverse,
        RevIndex, SaveCursor, SetAltG0, SetAltG1, SetAltSpecG0, SetAltSpecG1, SetAppl,
        SetCol, SetCursor, SetInter, SetJump, SetLF, SetNL, SetNormScrn,
        SetOrgAbs, SetOrgRel, SetRep, SetRevScrn, SetSmooth, SetSpecG0, SetSpecG1,
        SetSS2, SetSS3, SetUKG0, SetUKG1, SetUSG0, SetUSG1, SetVT52,
        SetWin, SetWrap, Swsh, TabClr, TabClrAll, TabSet, TestLB,
        TestLBRep, TestPU, TestPURep, Underline] =
       [''Align'', ''AltKeypad'', ''Blink'', ''Bold'', ''ClearBOL'', ''ClearBOS'',
        ''ClearEOL'', ''ClearEOS'', ''ClearLine'', ''ClearScreen'', ''CursorDn'', ''CursorHome'',
        ''CursorLf'', ''CursorPos'', ''CursorRt'', ''CursorUp'', ''DevStat'', ''DhBot'',
        ''DhTop'', ''Dwsh'', ''GetCursor'', ''HvHome'', ''HvPos'', ''Ident'',
        ''Index'', ''Invisible'', ''Led1'', ''Led2'', ''Led3'', ''Led4'',
        ''LedsOff'', ''LowInt'', ''ModesOff'', ''NextLine'', ''NumKeypad'', ''Reset'',
        ''ResetCol'', ''ResetInter'', ''ResetRep'', ''ResetWrap'', ''RestoreCursor'', ''Reverse'',
        ''RevIndex'', ''SaveCursor'', ''SetAltG0'', ''SetAltG1'', ''SetAltSpecG0'', ''SetAltSpecG1'',
        ''SetAppl'', ''SetCol'', ''SetCursor'', ''SetInter'', ''SetJump'', ''SetLF'',
        ''SetNL'', ''SetNormScrn'', ''SetOrgAbs'', ''SetOrgRel'', ''SetRep'', ''SetRevScrn'',
        ''SetSmooth'', ''SetSpecG0'', ''SetSpecG1'', ''SetSS2'', ''SetSS3'', ''SetUKG0'',
        ''SetUKG1'', ''SetUSG0'', ''SetUSG1'', ''SetVT52'', ''SetWin'', ''SetWrap'',
        ''Swsh'', ''TabClr'', ''TabClrAll'', ''TabSet'', ''TestLB'', ''TestLBRep'',
        ''TestPU'', ''TestPURep'', ''Underline'']
   \<and> ((t < -81 \<or> -1 < t) \<longrightarrow> String t = ''?'')
   \<and> ((0 \<le> t \<and> t \<le> 127) \<longrightarrow> String t = ''?'')"
proof -
  have "map String named = map snd labelMap"
    by (rule String_named)
  then have "map String
       [Align, AltKeypad, Blink, Bold, ClearBOL, ClearBOS, ClearEOL,
        ClearEOS, ClearLine, ClearScreen, CursorDn, CursorHome, CursorLf, CursorPos,
        CursorRt, CursorUp, DevStat, DhBot, DhTop, Dwsh, GetCursor,
        HvHome, HvPos, Ident, Index, Invisible, Led1, Led2,
        Led3, Led4, LedsOff, LowInt, ModesOff, NextLine, NumKeypad,
        Reset, ResetCol, ResetInter, ResetRep, ResetWrap, RestoreCursor, Reverse,
        RevIndex, SaveCursor, SetAltG0, SetAltG1, SetAltSpecG0, SetAltSpecG1, SetAppl,
        SetCol, SetCursor, SetInter, SetJump, SetLF, SetNL, SetNormScrn,
        SetOrgAbs, SetOrgRel, SetRep, SetRevScrn, SetSmooth, SetSpecG0, SetSpecG1,
        SetSS2, SetSS3, SetUKG0, SetUKG1, SetUSG0, SetUSG1, SetVT52,
        SetWin, SetWrap, Swsh, TabClr, TabClrAll, TabSet, TestLB,
        TestLBRep, TestPU, TestPURep, Underline] =
       [''Align'', ''AltKeypad'', ''Blink'', ''Bold'', ''ClearBOL'', ''ClearBOS'',
        ''ClearEOL'', ''ClearEOS'', ''ClearLine'', ''ClearScreen'', ''CursorDn'', ''CursorHome'',
        ''CursorLf'', ''CursorPos'', ''CursorRt'', ''CursorUp'', ''DevStat'', ''DhBot'',
        ''DhTop'', ''Dwsh'', ''GetCursor'', ''HvHome'', ''HvPos'', ''Ident'',
        ''Index'', ''Invisible'', ''Led1'', ''Led2'', ''Led3'', ''Led4'',
        ''LedsOff'', ''LowInt'', ''ModesOff'', ''NextLine'', ''NumKeypad'', ''Reset'',
        ''ResetCol'', ''ResetInter'', ''ResetRep'', ''ResetWrap'', ''RestoreCursor'', ''Reverse'',
        ''RevIndex'', ''SaveCursor'', ''SetAltG0'', ''SetAltG1'', ''SetAltSpecG0'', ''SetAltSpecG1'',
        ''SetAppl'', ''SetCol'', ''SetCursor'', ''SetInter'', ''SetJump'', ''SetLF'',
        ''SetNL'', ''SetNormScrn'', ''SetOrgAbs'', ''SetOrgRel'', ''SetRep'', ''SetRevScrn'',
        ''SetSmooth'', ''SetSpecG0'', ''SetSpecG1'', ''SetSS2'', ''SetSS3'', ''SetUKG0'',
        ''SetUKG1'', ''SetUSG0'', ''SetUSG1'', ''SetVT52'', ''SetWin'', ''SetWrap'',
        ''Swsh'', ''TabClr'', ''TabClrAll'', ''TabSet'', ''TestLB'', ''TestLBRep'',
        ''TestPU'', ''TestPURep'', ''Underline'']"
    unfolding named_def by (simp add: labelMap_numbered numbered_snd)
  moreover have "String t = ''?''" if "t < -81 \<or> -1 < t"
    using that named_range [of t] by (intro String_other) auto
  ultimately show ?thesis
    by (auto simp: init_ok)
qed

theorem C7_witness:
  "(0::int) \<le> 65 \<and> (65::int) \<le> 127 \<and> String 65 = ''?'' \<and> String (-82) = ''?''
   \<and> String CursorHome = ''CursorHome''"
  using C7_name_lookup [of 65] C7_name_lookup [of "-82"] by simp

text \<open>
  Claim C8. Every byte is masked to 7 bits before it is interpreted: in every state and
  on every lexer, a turn of the loop on the byte \<open>b\<close> gives the same state and the same
  lexer (the tokens sent with it) as on \<open>b AND 0x7F\<close>, and so does the loop on two streams
  that differ in the high bits only. The byte 0x9B acts as the escape introducer, and a
  byte from 0x80 on that is not 0x9B, received in the ground state, sends one token whose
  value is the byte minus 128.
\<close>

theorem C8_mask_7_bits:
  "receive st l b = receive st l (b AND 0x7f)
   \<and> run_from st l cs = run_from st l (map (\<lambda>b. b AND 0x7f) cs)
   \<and> receive St_ground l 0x9B = receive St_ground l 0x1b
   \<and> receive St_ground l 0x9B =
       Inr (St_intermediateChar,
            \<lparr>Output = Output l, paramCharsAccum = [], params = [], seq = Some [0x1b]\<rparr>)
   \<and> (0x80 \<le> b \<and> b \<noteq> 0x9B \<longrightarrow>
        receive St_ground l b =
          Inr (St_ground,
               \<lparr>Output = Output l @ [\<lparr>Value = uint b - 128, Params = [], seq = None\<rparr>],
                paramCharsAccum = [], params = [], seq = None\<rparr>))"
proof -
  have "b AND 0x7f \<noteq> 0x1b" if "0x80 \<le> b" "b \<noteq> 0x9B"
  proof
    assume "b AND 0x7f = 0x1b"
    then have "uint (b AND 0x7f) = 27" by simp
    with that(1) have "uint b = 155" by (simp add: mask_high)
    then have "b = 0x9B" by (simp add: word_uint_eq_iff)
    with that(2) show False by simp
  qed
  then show ?thesis
    by (simp add: receive_mask run_from_mask receive_ground mask_high)
qed

theorem C8_witness:
  "(0x80::byte) \<le> 0xC1 \<and> (0xC1::byte) \<noteq> 0x9B
   \<and> receive St_ground NewLexer 0xC1 =
       Inr (St_ground,
            \<lparr>Output = [\<lparr>Value = 0x41, Params = [], seq = None\<rparr>],
             paramCharsAccum = [], params = [], seq = None\<rparr>)"
proof -
  have h: "(0x80::byte) \<le> 0xC1 \<and> (0xC1::byte) \<noteq> 0x9B" by simp
  with C8_mask_7_bits [of St_ground NewLexer "0xC1" "[]"]
  have "receive St_ground NewLexer 0xC1 =
          Inr (St_ground,
               \<lparr>Output = Output NewLexer @ [\<lparr>Value = uint (0xC1::byte) - 128, Params = [], seq = None\<rparr>],
                paramCharsAccum = [], params = [], seq = None\<rparr>)"
    by blast
  with h show ?thesis by (simp add: NewLexer_def)
qed

text \<open>
  Claim C9. For the terminators with parameters the body is matched by its beginning and
  not in full: when the body starts with the numbers (each at most 255), the token is sent
  with these parameters whatever bytes that accumulate follow them before the terminator,
  as long as the first of these bytes is not a digit, which would belong to the number.
  So \<^verbatim>\<open>ESC [ 1 ; 2 ; 3 H\<close> sends \<^verbatim>\<open>CursorPos\<close> with the parameters \<open>[1, 2]\<close>.
\<close>

theorem C9_prefix_match:
  assumes "\<forall>b\<in>set extra. b \<le> 0x7f \<and> accumulates b"
    and "extra = [] \<or> hd extra \<notin> set decimalDigits"
    and "v \<le> 255" and "h \<le> 255"
  shows "((c, tv) \<in> {(0x72, SetWin), (0x48, CursorPos), (0x66, HvPos)} \<longrightarrow>
      emits l (0x1b # bytes ''['' @ decimal v @ bytes '';'' @ decimal h @ extra @ [c])
        [\<lparr>Value = tv, Params = [int v, int h],
          seq = Some (0x1b # bytes ''['' @ decimal v @ bytes '';'' @ decimal h @ extra @ [c])\<rparr>])
   \<and> ((c, tv) \<in> {(0x41, CursorUp), (0x42, CursorDn), (0x43, CursorRt), (0x44, CursorLf)} \<longrightarrow>
      emits l (0x1b # bytes ''['' @ decimal v @ extra @ [c])
        [\<lparr>Value = tv, Params = [int v],
          seq = Some (0x1b # bytes ''['' @ decimal v @ extra @ [c])\<rparr>])"
  using emits_decimal_two [OF assms(1,2), of c tv l v h]
    emits_decimal_one [OF assms(1,2), of c tv l v] assms(3,4)
  by simp

theorem C9_witness:
  "emits NewLexer (0x1b # bytes ''[1;2;3H'')
     [\<lparr>Value = CursorPos, Params = [1, 2], seq = Some (0x1b # bytes ''[1;2;3H'')\<rparr>]
   \<and> emits NewLexer (0x1b # bytes ''[5;6A'')
     [\<lparr>Value = CursorUp, Params = [5], seq = Some (0x1b # bytes ''[5;6A'')\<rparr>]"
proof -
  have d: "decimal 1 = bytes ''1''" "decimal 2 = bytes ''2''" "decimal 5 = bytes ''5''"
    by (simp_all add: decimal.simps bytes_def)
  have a3: "\<forall>b\<in>set (bytes '';3''). b \<le> 0x7f \<and> accumulates b"
    and a6: "\<forall>b\<in>set (bytes '';6''). b \<le> 0x7f \<and> accumulates b"
    by (simp_all add: bytes_def accumulates_def IsLetter_def IsPrint_def IsSpace_def)
  have h3: "bytes '';3'' = [] \<or> hd (bytes '';3'') \<notin> set decimalDigits"
    and h6: "bytes '';6'' = [] \<or> hd (bytes '';6'') \<notin> set decimalDigits"
    by (simp_all add: bytes_def decimalDigits_def)
  have le: "(1::nat) \<le> 255" "(2::nat) \<le> 255" "(5::nat) \<le> 255" "(0::nat) \<le> 255"
    by simp_all
  have w1: "emits NewLexer (0x1b # bytes ''[1;2;3H'')
     [\<lparr>Value = CursorPos, Params = [1, 2], seq = Some (0x1b # bytes ''[1;2;3H'')\<rparr>]"
    using C9_prefix_match [OF a3 h3 le(1) le(2), of "0x48" CursorPos NewLexer]
    unfolding d by (simp add: bytes_def)
  have w2: "emits NewLexer (0x1b # bytes ''[5;6A'')
     [\<lparr>Value = CursorUp, Params = [5], seq = Some (0x1b # bytes ''[5;6A'')\<rparr>]"
    using C9_prefix_match [OF a6 h6 le(3) le(4), of "0x41" CursorUp NewLexer]
    unfolding d by (simp add: bytes_def)
  from w1 w2 show ?thesis by blast
qed

text \<open>
  Claim C10. On every input the loop returns, and every token it has sent has a value
  that is one of the 81 named values of the catalog or a raw byte value from 0 to 127.
  The named values are 81 different integers, all negative, so no named value is a raw
  byte value.
\<close>

theorem C10_token_values:
  "(\<exists>st l. run cs = Inr (st, l)
      \<and> (\<forall>t\<in>set (Output l). Value t \<in> set named \<or> (0 \<le> Value t \<and> Value t \<le> 127)))
   \<and> length named = 81 \<and> distinct named
   \<and> (\<forall>v\<in>set named. v < 0)
   \<and> set named \<inter> {0..127} = {}"
proof -
  from run_from_total [OF in_sequence_ground, of NewLexer cs]
  obtain st l ts where r: "run cs = Inr (st, l)" and o: "Output l = ts"
    and g: "\<forall>t\<in>set ts. catalog_or_raw t"
    by (auto simp: run_def NewLexer_def)
  from g o have "\<forall>t\<in>set (Output l). Value t \<in> set named \<or> (0 \<le> Value t \<and> Value t \<le> 127)"
    by (auto simp: catalog_or_raw_def named_range)
  with r have sent: "\<exists>st l. run cs = Inr (st, l)
      \<and> (\<forall>t\<in>set (Output l). Value t \<in> set named \<or> (0 \<le> Value t \<and> Value t \<le> 127))"
    by blast
  have len: "length named = 81"
    using labelMap_keys labelMap_length by (metis length_map)
  have dist: "distinct named"
    using labelMap_keys numbered_distinct [of "-1"] labelMap_numbered by metis
  have neg: "\<forall>v\<in>set named. v < 0"
    by (auto simp: named_range)
  have disj: "set named \<inter> {0..127} = {}"
    by (auto simp: named_range)
  from sent len dist neg disj show ?thesis by blast
qed

theorem C10_witness:
  "run (0x41 # 0x1b # bytes ''[H'') =
     Inr (St_ground,
          \<lparr>Output = [\<lparr>Value = 0x41, Params = [], seq = None\<rparr>,
                      \<lparr>Value = CursorHome, Params = [], seq = Some (0x1b # bytes ''[H'')\<rparr>],
           paramCharsAccum = [], params = [], seq = Some (0x1b # bytes ''[H'')\<rparr>)
   \<and> CursorHome \<in> set named \<and> CursorHome < 0 \<and> (0::int) \<le> 0x41 \<and> (0x41::int) \<le> 127"
proof -
  have e: "run (0x41 # 0x1b # bytes ''[H'') =
     Inr (St_ground,
          \<lparr>Output = [\<lparr>Value = 0x41, Params = [], seq = None\<rparr>,
                      \<lparr>Value = CursorHome, Params = [], seq = Some (0x1b # bytes ''[H'')\<rparr>],
           paramCharsAccum = [], params = [], seq = Some (0x1b # bytes ''[H'')\<rparr>)"
    by (simp add: run_def state_defs NewLexer_def ground_def case_upper_H_def)
  from C10_token_values [of "0x41 # 0x1b # bytes ''[H''"]
  have "\<forall>t\<in>set [\<lparr>Value = 0x41, Params = [], seq = None\<rparr>,
                      \<lparr>Value = CursorHome, Params = [], seq = Some (0x1b # bytes ''[H'')\<rparr>].
          Value t \<in> set named \<or> (0 \<le> Value t \<and> Value t \<le> 127)"
    unfolding e by auto
  then have "CursorHome \<in> set named \<or> (0 \<le> CursorHome \<and> CursorHome \<le> 127)"
    by simp
  then have m: "CursorHome \<in> set named"
    by (simp add: CursorHome_def)
  with C10_token_values [of "[]"] have "CursorHome < 0"
    by blast
  with e m show ?thesis by simp
qed

end
